theory Spec2Isabelle
  imports Complex_Main
begin

section \<open>Python values used by the two programs\<close>

text \<open>
  A Python \<^verbatim>\<open>str\<close> is a sequence of Unicode code points, so \<^verbatim>\<open>len\<close> counts code
  points. Strings are therefore lists of code points (natural numbers below \<open>0x110000\<close>);
  \<open>py\<close> turns an ASCII literal into such a list.
\<close>

type_synonym pystr = "nat list"

definition py :: "string \<Rightarrow> pystr" where
  "py s = map of_char s"

text \<open>\<^verbatim>\<open>str.isspace\<close> for one code point: the characters \<^verbatim>\<open>str.strip()\<close> removes.\<close>

definition isspace :: "nat \<Rightarrow> bool" where
  "isspace c \<longleftrightarrow>
     (9 \<le> c \<and> c \<le> 13) \<or> (28 \<le> c \<and> c \<le> 32) \<or> c = 133 \<or> c = 160 \<or> c = 5760 \<or>
     (8192 \<le> c \<and> c \<le> 8202) \<or> c = 8232 \<or> c = 8233 \<or> c = 8239 \<or> c = 8287 \<or> c = 12288"

definition strip :: "pystr \<Rightarrow> pystr" where
  "strip s = rev (dropWhile isspace (rev (dropWhile isspace s)))"

definition startswith :: "pystr \<Rightarrow> pystr \<Rightarrow> bool" where
  "startswith s p \<longleftrightarrow> take (length p) s = p"

text \<open>\<^verbatim>\<open>w in s\<close> for strings: \<open>w\<close> occurs in \<open>s\<close> as a contiguous piece.\<close>

fun py_in :: "pystr \<Rightarrow> pystr \<Rightarrow> bool" where
  "py_in w [] \<longleftrightarrow> w = []"
| "py_in w (c # cs) \<longleftrightarrow> startswith (c # cs) w \<or> py_in w cs"

text \<open>
  \<^verbatim>\<open>str.lower()\<close>, code point by code point. Only the code points whose lower-case form
  contains an ASCII character are mapped (the letters \<open>A\<close> to \<open>Z\<close>, U+0130 and U+212A);
  every other code point has a lower-case form without ASCII characters and is kept as
  it is, which leaves the occurrences of an ASCII word unchanged.
\<close>

definition lower_cp :: "nat \<Rightarrow> pystr" where
  "lower_cp c =
     (if 65 \<le> c \<and> c \<le> 90 then [c + 32]
      else if c = 304 then [105, 775]
      else if c = 8490 then [107]
      else [c])"

definition lower :: "pystr \<Rightarrow> pystr" where
  "lower s = concat (map lower_cp s)"

text \<open>\<^verbatim>\<open>s.split(sep)\<close> for a one-character separator: every occurrence splits.\<close>

fun split :: "nat \<Rightarrow> pystr \<Rightarrow> pystr list" where
  "split sep [] = [[]]"
| "split sep (c # cs) =
     (if c = sep then [] # split sep cs
      else (case split sep cs of [] \<Rightarrow> [[c]] | l # ls \<Rightarrow> (c # l) # ls))"

text \<open>Decimal digits of a natural number, and \<^verbatim>\<open>str.zfill\<close>-style padding with zeros.\<close>

fun digits :: "nat \<Rightarrow> pystr" where
  "digits n = (if n < 10 then [48 + n] else digits (n div 10) @ [48 + n mod 10])"

declare digits.simps [simp del]

definition zfill :: "nat \<Rightarrow> pystr \<Rightarrow> pystr" where
  "zfill w s = replicate (w - length s) 48 @ s"

text \<open>
  The values \<^verbatim>\<open>json.loads\<close> builds and \<^verbatim>\<open>json.dumps\<close> prints. A dictionary keeps
  its insertion order, so it is an association list. JSON numbers with a fraction or an
  exponent become Python floats; floating point is outside this development, and such
  values are not represented.
\<close>

datatype json =
    JNull
  | JBool bool
  | JInt int
  | JStr pystr
  | JArr "json list"
  | JObj "(pystr \<times> json) list"

text \<open>The exceptions that occur in the two programs.\<close>

datatype py_error =
    AttributeError
  | IndexError
  | TypeError
  | FileNotFoundError
  | UnicodeEncodeError
  | UnicodeDecodeError
  | JSONDecodeError
  | RecursionError
  | ValueError

section \<open>json.dumps with its default options\<close>

definition hex_digit :: "nat \<Rightarrow> nat" where
  "hex_digit d = (if d < 10 then 48 + d else 87 + d)"

definition hex4 :: "nat \<Rightarrow> pystr" where
  "hex4 n = [hex_digit (n div 4096 mod 16), hex_digit (n div 256 mod 16),
             hex_digit (n div 16 mod 16), hex_digit (n mod 16)]"

text \<open>
  \<^verbatim>\<open>ensure_ascii\<close> is on: a backslash, a double quote and every character outside
  \<open>' '..'~'\<close> is escaped, with a surrogate pair for a code point above \<open>0xFFFF\<close>.
\<close>

definition escape_char :: "nat \<Rightarrow> pystr" where
  "escape_char c =
     (if c = 92 then [92, 92]
      else if c = 34 then [92, 34]
      else if c = 8 then [92, 98]
      else if c = 12 then [92, 102]
      else if c = 10 then [92, 110]
      else if c = 13 then [92, 114]
      else if c = 9 then [92, 116]
      else if 32 \<le> c \<and> c \<le> 126 then [c]
      else if c < 65536 then [92, 117] @ hex4 c
      else [92, 117] @ hex4 (55296 + (c - 65536) div 1024 mod 1024) @
           [92, 117] @ hex4 (56320 + (c - 65536) mod 1024))"

definition encode_basestring_ascii :: "pystr \<Rightarrow> pystr" where
  "encode_basestring_ascii s = [34] @ concat (map escape_char s) @ [34]"

definition int_repr :: "int \<Rightarrow> pystr" where
  "int_repr i = (if i < 0 then 45 # digits (nat (- i)) else digits (nat i))"

fun join :: "pystr \<Rightarrow> pystr list \<Rightarrow> pystr" where
  "join sep [] = []"
| "join sep [x] = x"
| "join sep (x # y # xs) = x @ sep @ join sep (y # xs)"

fun json_dumps :: "json \<Rightarrow> pystr" where
  "json_dumps JNull = py ''null''"
| "json_dumps (JBool b) = (if b then py ''true'' else py ''false'')"
| "json_dumps (JInt i) = int_repr i"
| "json_dumps (JStr s) = encode_basestring_ascii s"
| "json_dumps (JArr xs) = [91] @ join (py '', '') (map json_dumps xs) @ [93]"
| "json_dumps (JObj kvs) =
     [123] @ join (py '', '')
       (map (\<lambda>kv. encode_basestring_ascii (fst kv) @ py '': '' @ json_dumps (snd kv)) kvs) @ [125]"

section \<open>chat\_send.py: BasicChatSender\<close>

text \<open>
  The one file both programs share is the whole file system of the model: \<open>None\<close> while
  the file does not exist, otherwise its characters in the order they were written.
  Another program can leave bytes in the file that are not valid UTF-8; such a byte is
  kept as a code point of the surrogate range, which no UTF-8 text decodes to and which
  the senders cannot write (see \<open>encodable\<close> and \<open>decode\<close> below).
\<close>

type_synonym chat_file = "pystr option"

record sender =
  username :: pystr

text \<open>
  A reading of \<^verbatim>\<open>datetime.datetime.now()\<close>: the calendar fields \<^verbatim>\<open>strftime\<close> prints
  and the number \<^verbatim>\<open>.timestamp()\<close> returns (seconds since the epoch; the float is taken
  as the rational it denotes, and the product with 1000 is exact).
\<close>

record datetime =
  year :: nat
  month :: nat
  day :: nat
  hour :: nat
  minute :: nat
  second :: nat
  timestamp :: rat

definition ensure_chat_file_exists :: "chat_file \<Rightarrow> chat_file" where
  "ensure_chat_file_exists fs =
     (case fs of None \<Rightarrow> Some (py ''=== Chat Session Started ==='' @ [10]) | Some c \<Rightarrow> Some c)"

text \<open>
  \<^verbatim>\<open>strftime("%Y-%m-%d %H:%M:%S")\<close>: the fields in decimal, the year on four digits
  and the others on two.
\<close>

definition strftime :: "datetime \<Rightarrow> pystr" where
  "strftime d =
     zfill 4 (digits (year d)) @ [45] @ zfill 2 (digits (month d)) @ [45] @
     zfill 2 (digits (day d)) @ [32] @ zfill 2 (digits (hour d)) @ [58] @
     zfill 2 (digits (minute d)) @ [58] @ zfill 2 (digits (second d))"

text \<open>Python's \<^verbatim>\<open>int(x)\<close> on a float truncates towards zero.\<close>

definition py_int :: "rat \<Rightarrow> int" where
  "py_int x = (if 0 \<le> x then \<lfloor>x\<rfloor> else \<lceil>x\<rceil>)"

definition generate_message_id :: "datetime \<Rightarrow> int" where
  "generate_message_id now = py_int (timestamp now * 1000)"

text \<open>
  \<^verbatim>\<open>format_message\<close> reads the clock twice: \<open>now1\<close> for the timestamp text, \<open>now2\<close>
  inside \<^verbatim>\<open>generate_message_id\<close>.
\<close>

definition format_message :: "sender \<Rightarrow> datetime \<Rightarrow> datetime \<Rightarrow> pystr \<Rightarrow> json" where
  "format_message self now1 now2 message_text =
     JObj [(py ''timestamp'', JStr (strftime now1)),
           (py ''username'', JStr (username self)),
           (py ''message'', JStr message_text),
           (py ''message_id'', JInt (generate_message_id now2))]"

definition prohibited_words :: "pystr list" where
  "prohibited_words = [py ''spam'', py ''test123'']"

definition validate_message :: "pystr \<Rightarrow> bool \<times> pystr" where
  "validate_message message =
     (if strip message = [] then (False, py ''Message cannot be empty'')
      else if length message > 500 then (False, py ''Message too long (max 500 characters)'')
      else if list_ex (\<lambda>word. py_in word (lower message)) prohibited_words
        then (False, py ''Message contains prohibited content'')
      else (True, []))"

text \<open>
  Writing to a file opened with \<^verbatim>\<open>encoding='utf-8'\<close> raises \<^verbatim>\<open>UnicodeEncodeError\<close>
  on a surrogate code point; \<^verbatim>\<open>send_message\<close> catches it and returns \<^verbatim>\<open>False\<close>.
\<close>

definition encodable :: "pystr \<Rightarrow> bool" where
  "encodable s \<longleftrightarrow> list_all (\<lambda>c. \<not> (55296 \<le> c \<and> c \<le> 57343)) s"

definition human_format :: "sender \<Rightarrow> datetime \<Rightarrow> pystr \<Rightarrow> pystr" where
  "human_format self now1 message_text =
     [91] @ strftime now1 @ [93, 32] @ username self @ [58, 32] @ message_text @ [10]"

definition json_format :: "json \<Rightarrow> pystr" where
  "json_format formatted_message = py ''JSON: '' @ json_dumps formatted_message @ [10]"

definition separator :: pystr where
  "separator = replicate 50 45 @ [10]"

text \<open>
  \<^verbatim>\<open>send_message\<close>: the result is the returned flag and the file afterwards. Opening
  with mode \<^verbatim>\<open>'a'\<close> creates a missing file; the three writes follow each other, and the
  first one is the only one that can fail to encode (the other two are ASCII).
\<close>

definition send_message ::
  "sender \<Rightarrow> datetime \<Rightarrow> datetime \<Rightarrow> pystr \<Rightarrow> chat_file \<Rightarrow> bool \<times> chat_file" where
  "send_message self now1 now2 message_text fs =
     (let (is_valid, error_msg) = validate_message message_text in
      if \<not> is_valid then (False, fs)
      else
        let formatted_message = format_message self now1 now2 message_text;
            content = (case fs of None \<Rightarrow> [] | Some c \<Rightarrow> c)
        in if encodable (human_format self now1 message_text)
           then (True, Some (content @ human_format self now1 message_text @
                             json_format formatted_message @ separator))
           else (False, Some content))"

section \<open>chat\_receive.py: BasicChatReceiver\<close>

text \<open>
  \<^verbatim>\<open>json.loads\<close> is the library's parser. The receiver only depends on whether it
  returns a value or raises an exception, and on which one: \<^verbatim>\<open>JSONDecodeError\<close> on a
  text that is not JSON, but also \<^verbatim>\<open>RecursionError\<close> on a text nested too deeply and
  \<^verbatim>\<open>ValueError\<close> on an integer of too many digits. So it is a parameter \<open>loads\<close> of
  the functions below; \<open>json_loads\<close> further down is a concrete parser for evaluating
  them on given files.
\<close>

type_synonym loads = "pystr \<Rightarrow> py_error + json"

text \<open>
  Elements of the set \<^verbatim>\<open>displayed_messages\<close>. Python compares \<^verbatim>\<open>True\<close> equal to
  \<open>1\<close> and \<^verbatim>\<open>False\<close> equal to \<open>0\<close>, and they hash alike; lists and dictionaries are
  unhashable.
\<close>

datatype pykey = KNone | KNum int | KStr pystr

fun hash_key :: "json \<Rightarrow> py_error + pykey" where
  "hash_key JNull = Inr KNone"
| "hash_key (JBool b) = Inr (KNum (if b then 1 else 0))"
| "hash_key (JInt i) = Inr (KNum i)"
| "hash_key (JStr s) = Inr (KStr s)"
| "hash_key (JArr xs) = Inl TypeError"
| "hash_key (JObj kvs) = Inl TypeError"

text \<open>The truth value Python gives a value in \<^verbatim>\<open>if msg_id\<close>.\<close>

fun truthy :: "json \<Rightarrow> bool" where
  "truthy JNull \<longleftrightarrow> False"
| "truthy (JBool b) \<longleftrightarrow> b"
| "truthy (JInt i) \<longleftrightarrow> i \<noteq> 0"
| "truthy (JStr s) \<longleftrightarrow> s \<noteq> []"
| "truthy (JArr xs) \<longleftrightarrow> xs \<noteq> []"
| "truthy (JObj kvs) \<longleftrightarrow> kvs \<noteq> []"

text \<open>\<^verbatim>\<open>d.get(key, default)\<close>; only a dictionary has the method.\<close>

fun dict_get :: "json \<Rightarrow> pystr \<Rightarrow> json \<Rightarrow> py_error + json" where
  "dict_get (JObj kvs) key dflt = (case map_of kvs key of None \<Rightarrow> Inr dflt | Some v \<Rightarrow> Inr v)"
| "dict_get _ key dflt = Inl AttributeError"

record receiver =
  last_position :: nat
  displayed_messages :: "pykey set"

definition init_receiver :: receiver where
  "init_receiver = \<lparr>last_position = 0, displayed_messages = {}\<rparr>"

text \<open>
  Reading a file opened in text mode translates \<^verbatim>\<open>\r\n\<close> and a lone \<^verbatim>\<open>\r\<close> to
  \<^verbatim>\<open>\n\<close>. Positions (\<^verbatim>\<open>seek\<close>, \<^verbatim>\<open>tell\<close>) count the stored characters.
\<close>

fun universal_newlines :: "pystr \<Rightarrow> pystr" where
  "universal_newlines [] = []"
| "universal_newlines [c] = (if c = 13 then [10] else [c])"
| "universal_newlines (c # d # cs) =
     (if c = 13 \<and> d = 10 then 10 # universal_newlines cs
      else if c = 13 then 10 # universal_newlines (d # cs)
      else c # universal_newlines (d # cs))"

text \<open>
  The file is opened with \<^verbatim>\<open>encoding='utf-8'\<close> and strict error handling:
  \<^verbatim>\<open>f.read()\<close> and \<^verbatim>\<open>f.readlines()\<close> raise \<^verbatim>\<open>UnicodeDecodeError\<close> when what they
  read holds a byte that does not decode.
\<close>

definition decode :: "pystr \<Rightarrow> py_error + pystr" where
  "decode stored = (if encodable stored then Inr stored else Inl UnicodeDecodeError)"

text \<open>\<^verbatim>\<open>f.readlines()\<close>: the lines with their terminating newline.\<close>

fun readlines :: "pystr \<Rightarrow> pystr list" where
  "readlines [] = []"
| "readlines (c # cs) =
     (if c = 10 then [c] # readlines cs
      else (case readlines cs of [] \<Rightarrow> [[c]] | l # ls \<Rightarrow> (c # l) # ls))"

text \<open>
  The body of the loop of \<^verbatim>\<open>read_new_messages\<close> for one line, on the pair of
  \<^verbatim>\<open>new_messages\<close> and \<^verbatim>\<open>self.displayed_messages\<close>. \<^verbatim>\<open>JSONDecodeError\<close> is caught
  inside the loop (\<^verbatim>\<open>continue\<close>); any other exception leaves the loop (\<open>Inl\<close>).
\<close>

definition read_line ::
  "loads \<Rightarrow> pystr \<Rightarrow> json list \<times> pykey set \<Rightarrow> py_error + (json list \<times> pykey set)" where
  "read_line loads line0 st =
     (let line = strip line0 in
      if startswith line (py ''JSON: '') then
        (case loads (drop 6 line) of
           Inl e \<Rightarrow> if e = JSONDecodeError then Inr st else Inl e
         | Inr message_data \<Rightarrow>
             (case dict_get message_data (py ''message_id'') JNull of
                Inl e \<Rightarrow> Inl e
              | Inr msg_id \<Rightarrow>
                  if truthy msg_id then
                    (case hash_key msg_id of
                       Inl e \<Rightarrow> Inl e
                     | Inr k \<Rightarrow>
                         if k \<notin> snd st then Inr (fst st @ [message_data], insert k (snd st))
                         else Inr st)
                  else Inr st))
      else Inr st)"

text \<open>
  The loop: an exception ends it, and what was appended and recorded before stays.
\<close>

fun read_lines ::
  "loads \<Rightarrow> pystr list \<Rightarrow> json list \<times> pykey set \<Rightarrow> py_error option \<times> json list \<times> pykey set" where
  "read_lines loads [] st = (None, st)"
| "read_lines loads (l # ls) st =
     (case read_line loads l st of
        Inl e \<Rightarrow> (Some e, st)
      | Inr st' \<Rightarrow> read_lines loads ls st')"

text \<open>
  \<^verbatim>\<open>read_new_messages\<close>: the returned list, the receiver afterwards, and the exception
  the outer handler caught and printed, if any. A seek past the end reads nothing and
  \<^verbatim>\<open>tell\<close> stays where the seek went. An exception of \<^verbatim>\<open>f.read()\<close> comes before
  the position is stored.
\<close>

definition read_new_messages ::
  "loads \<Rightarrow> receiver \<Rightarrow> chat_file \<Rightarrow> json list \<times> receiver \<times> py_error option" where
  "read_new_messages loads self fs =
     (case fs of
        None \<Rightarrow> ([], self, Some FileNotFoundError)
      | Some content \<Rightarrow>
          (case decode (drop (last_position self) content) of
             Inl e \<Rightarrow> ([], self, Some e)
           | Inr text_read \<Rightarrow>
               let new_content = universal_newlines text_read;
                   self1 = self\<lparr>last_position := max (last_position self) (length content)\<rparr>
               in if strip new_content \<noteq> [] then
                    (case read_lines loads (split 10 new_content) ([], displayed_messages self1) of
                       (err, new_messages, displayed) \<Rightarrow>
                         (new_messages, self1\<lparr>displayed_messages := displayed\<rparr>, err))
                  else ([], self1, None)))"

text \<open>
  An f-string inserts a string as it is and \<^verbatim>\<open>str(v)\<close> of anything else; \<open>py_str\<close> is
  Python's \<^verbatim>\<open>str\<close> on the values that are not strings, a parameter.
\<close>

definition fstr :: "(json \<Rightarrow> pystr) \<Rightarrow> json \<Rightarrow> pystr" where
  "fstr py_str v = (case v of JStr s \<Rightarrow> s | _ \<Rightarrow> py_str v)"

text \<open>\<^verbatim>\<open>timestamp.split(' ')[1]\<close>\<close>

definition time_part_of :: "json \<Rightarrow> py_error + pystr" where
  "time_part_of ts =
     (case ts of
        JStr s \<Rightarrow> (case split 32 s of a # b # rest \<Rightarrow> Inr b | _ \<Rightarrow> Inl IndexError)
      | _ \<Rightarrow> Inl AttributeError)"

definition format_message_display :: "(json \<Rightarrow> pystr) \<Rightarrow> json \<Rightarrow> py_error + pystr" where
  "format_message_display py_str message_data =
     (case dict_get message_data (py ''timestamp'') (JStr (py ''Unknown time'')) of
        Inl e \<Rightarrow> Inl e
      | Inr ts \<Rightarrow>
     (case dict_get message_data (py ''username'') (JStr (py ''Unknown user'')) of
        Inl e \<Rightarrow> Inl e
      | Inr user \<Rightarrow>
     (case dict_get message_data (py ''message'') (JStr []) of
        Inl e \<Rightarrow> Inl e
      | Inr message_text \<Rightarrow>
     (case time_part_of ts of
        Inl e \<Rightarrow> Inl e
      | Inr time_part \<Rightarrow>
          Inr ([128172, 32, 91] @ time_part @ [93, 32] @ fstr py_str user @ [58, 32] @
               fstr py_str message_text)))))"

text \<open>
  The extraction loop of \<^verbatim>\<open>show_existing_messages\<close> for one line; as in
  \<^verbatim>\<open>read_new_messages\<close>, only \<^verbatim>\<open>JSONDecodeError\<close> is caught inside the loop.
\<close>

definition extract_line :: "loads \<Rightarrow> pystr \<Rightarrow> json list \<Rightarrow> py_error + json list" where
  "extract_line loads line0 messages =
     (let line = strip line0 in
      if startswith line (py ''JSON: '') then
        (case loads (drop 6 line) of
           Inl e \<Rightarrow> if e = JSONDecodeError then Inr messages else Inl e
         | Inr message_data \<Rightarrow> Inr (messages @ [message_data]))
      else Inr messages)"

fun extract_lines :: "loads \<Rightarrow> pystr list \<Rightarrow> json list \<Rightarrow> py_error + json list" where
  "extract_lines loads [] messages = Inr messages"
| "extract_lines loads (l # ls) messages =
     (case extract_line loads l messages of
        Inl e \<Rightarrow> Inl e
      | Inr messages' \<Rightarrow> extract_lines loads ls messages')"

text \<open>\<^verbatim>\<open>xs[i:]\<close>; a negative \<open>i\<close> counts from the end.\<close>

definition slice_from :: "'a list \<Rightarrow> int \<Rightarrow> 'a list" where
  "slice_from xs i = (if i < 0 then drop (length xs - nat (- i)) xs else drop (nat i) xs)"

text \<open>
  The display loop of \<^verbatim>\<open>show_existing_messages\<close>, on the pair of the lines printed so
  far and \<^verbatim>\<open>self.displayed_messages\<close>. One message: it is formatted and printed, then
  its identifier is recorded; an exception in the second step comes after the line was
  printed.
\<close>

definition display_one ::
  "(json \<Rightarrow> pystr) \<Rightarrow> json \<Rightarrow> pystr list \<times> pykey set \<Rightarrow>
   py_error option \<times> pystr list \<times> pykey set" where
  "display_one py_str msg st =
     (case format_message_display py_str msg of
        Inl e \<Rightarrow> (Some e, st)
      | Inr formatted_msg \<Rightarrow>
          (case dict_get msg (py ''message_id'') JNull of
             Inl e \<Rightarrow> (Some e, fst st @ [formatted_msg], snd st)
           | Inr msg_id \<Rightarrow>
               if truthy msg_id then
                 (case hash_key msg_id of
                    Inl e \<Rightarrow> (Some e, fst st @ [formatted_msg], snd st)
                  | Inr k \<Rightarrow> (None, fst st @ [formatted_msg], insert k (snd st)))
               else (None, fst st @ [formatted_msg], snd st)))"

text \<open>The loop: an exception ends it.\<close>

fun display_all ::
  "(json \<Rightarrow> pystr) \<Rightarrow> json list \<Rightarrow> pystr list \<times> pykey set \<Rightarrow>
   py_error option \<times> pystr list \<times> pykey set" where
  "display_all py_str [] st = (None, st)"
| "display_all py_str (m # ms) st =
     (case display_one py_str m st of
        (Some e, st') \<Rightarrow> (Some e, st')
      | (None, st') \<Rightarrow> display_all py_str ms st')"

text \<open>
  \<^verbatim>\<open>show_existing_messages(count)\<close>: the message lines printed, the receiver afterwards,
  and the exception the handler caught, if any. The position moves to the end of the
  file only when a message was found and the display loop finished; an exception while
  reading or extracting comes before anything is shown.
\<close>

definition show_existing_messages ::
  "loads \<Rightarrow> (json \<Rightarrow> pystr) \<Rightarrow> int \<Rightarrow> receiver \<Rightarrow> chat_file \<Rightarrow>
   pystr list \<times> receiver \<times> py_error option" where
  "show_existing_messages loads py_str count self fs =
     (case fs of
        None \<Rightarrow> ([], self, None)
      | Some content \<Rightarrow>
          (case decode content of
             Inl e \<Rightarrow> ([], self, Some e)
           | Inr text_read \<Rightarrow>
               (case extract_lines loads (readlines (universal_newlines text_read)) [] of
                  Inl e \<Rightarrow> ([], self, Some e)
                | Inr messages \<Rightarrow>
                    if messages \<noteq> [] then
                      (case display_all py_str (slice_from messages (- count))
                              ([], displayed_messages self) of
                         (Some e, printed, displayed) \<Rightarrow>
                           (printed, self\<lparr>displayed_messages := displayed\<rparr>, Some e)
                       | (None, printed, displayed) \<Rightarrow>
                           (printed,
                            self\<lparr>displayed_messages := displayed,
                              last_position := length content\<rparr>,
                            None))
                    else ([], self, None))))"

section \<open>The operations of the two programs on the shared file\<close>

text \<open>
  One call of a sender or of the receiver. A \<open>Send\<close> carries the sender, the two clock
  readings of \<^verbatim>\<open>format_message\<close> and the text.
\<close>

datatype op =
    Send sender datetime datetime pystr
  | ReadNew
  | ShowExisting int

datatype outcome =
    Sent bool
  | Received "json list" "py_error option"
  | Shown "pystr list" "py_error option"

type_synonym system = "chat_file \<times> receiver"

fun step :: "loads \<Rightarrow> (json \<Rightarrow> pystr) \<Rightarrow> op \<Rightarrow> system \<Rightarrow> outcome \<times> system" where
  "step loads py_str (Send self now1 now2 message_text) (fs, r) =
     (case send_message self now1 now2 message_text fs of (ok, fs') \<Rightarrow> (Sent ok, (fs', r)))"
| "step loads py_str ReadNew (fs, r) =
     (case read_new_messages loads r fs of (msgs, r', err) \<Rightarrow> (Received msgs err, (fs, r')))"
| "step loads py_str (ShowExisting count) (fs, r) =
     (case show_existing_messages loads py_str count r fs of
        (printed, r', err) \<Rightarrow> (Shown printed err, (fs, r')))"

text \<open>A run: the output of every call and the state after it, in order.\<close>

fun run :: "loads \<Rightarrow> (json \<Rightarrow> pystr) \<Rightarrow> op list \<Rightarrow> system \<Rightarrow> (outcome \<times> system) list" where
  "run loads py_str [] sys = []"
| "run loads py_str (c # cs) sys =
     (case step loads py_str c sys of (out, sys') \<Rightarrow> (out, sys') # run loads py_str cs sys')"

text \<open>The messages the calls of \<^verbatim>\<open>read_new_messages\<close> returned, call after call.\<close>

fun received :: "outcome \<Rightarrow> json list" where
  "received (Received msgs err) = msgs"
| "received _ = []"

text \<open>The sends of one sender, each with its two clock readings and its text.\<close>

fun send_all ::
  "sender \<Rightarrow> (datetime \<times> datetime \<times> pystr) list \<Rightarrow> chat_file \<Rightarrow> bool list \<times> chat_file" where
  "send_all self [] fs = ([], fs)"
| "send_all self ((now1, now2, message_text) # rest) fs =
     (case send_message self now1 now2 message_text fs of
        (ok, fs') \<Rightarrow> (case send_all self rest fs' of (oks, fs'') \<Rightarrow> (ok # oks, fs'')))"

section \<open>A parser for evaluating the receiver on given files\<close>

text \<open>
  \<open>json_loads\<close> follows \<^verbatim>\<open>json.loads\<close> on JSON texts without floating-point numbers:
  white space, \<^verbatim>\<open>null\<close>, \<^verbatim>\<open>true\<close>, \<^verbatim>\<open>false\<close>, integers, strings with their
  escapes (surrogate pairs joined), arrays and objects (a repeated key keeps its first
  place and its last value). Like the library it raises

  \<^item> \<^verbatim>\<open>JSONDecodeError\<close> on a text that is not JSON;
  \<^item> \<^verbatim>\<open>RecursionError\<close> when arrays and objects are nested deeper than the
    interpreter's recursion limit allows: the scanner enters a recursive call at every
    \<open>[\<close> and \<open>{\<close>. How many levels are left depends on the limit in force and on the
    depth of the call, so this number is the first argument of \<open>json_loads\<close>;
  \<^item> \<^verbatim>\<open>ValueError\<close> on an integer of more than 4300 digits, the default limit of the
    conversion from text to \<^verbatim>\<open>int\<close>.

  It also answers \<^verbatim>\<open>JSONDecodeError\<close> on a number with a fraction or exponent and on
  \<^verbatim>\<open>NaN\<close> and \<^verbatim>\<open>Infinity\<close>, which the library turns into floats. The recursion is
  on a fuel that the length of the text bounds.
\<close>

definition is_ws :: "nat \<Rightarrow> bool" where
  "is_ws c \<longleftrightarrow> c = 32 \<or> c = 9 \<or> c = 10 \<or> c = 13"

definition skip_ws :: "pystr \<Rightarrow> pystr" where
  "skip_ws s = dropWhile is_ws s"

definition hex_val :: "nat \<Rightarrow> nat option" where
  "hex_val c =
     (if 48 \<le> c \<and> c \<le> 57 then Some (c - 48)
      else if 97 \<le> c \<and> c \<le> 102 then Some (c - 87)
      else if 65 \<le> c \<and> c \<le> 70 then Some (c - 55)
      else None)"

definition decode_hex4 :: "pystr \<Rightarrow> nat option" where
  "decode_hex4 s =
     (case s of
        a # b # c # d # rest \<Rightarrow>
          (case (hex_val a, hex_val b, hex_val c, hex_val d) of
             (Some x, Some y, Some z, Some w) \<Rightarrow> Some (((x * 16 + y) * 16 + z) * 16 + w)
           | _ \<Rightarrow> None)
      | _ \<Rightarrow> None)"

definition unescape :: "nat \<Rightarrow> nat option" where
  "unescape e =
     (if e = 34 then Some 34 else if e = 92 then Some 92 else if e = 47 then Some 47
      else if e = 98 then Some 8 else if e = 102 then Some 12 else if e = 110 then Some 10
      else if e = 114 then Some 13 else if e = 116 then Some 9 else None)"

text \<open>The result of a scanner: an exception, or what it read and the rest of the text.\<close>

type_synonym 'a scanned = "py_error + ('a \<times> pystr)"

definition cons_result :: "nat \<Rightarrow> pystr scanned \<Rightarrow> pystr scanned" where
  "cons_result c r = (case r of Inl e \<Rightarrow> Inl e | Inr (s, rest) \<Rightarrow> Inr (c # s, rest))"

fun scanstring :: "pystr \<Rightarrow> pystr scanned" where
  "scanstring [] = Inl JSONDecodeError"
| "scanstring (c # cs) =
     (if c = 34 then Inr ([], cs)
      else if c < 32 then Inl JSONDecodeError
      else if c \<noteq> 92 then cons_result c (scanstring cs)
      else
        (case cs of
           [] \<Rightarrow> Inl JSONDecodeError
         | e # r \<Rightarrow>
             if e \<noteq> 117 then
               (case unescape e of
                  None \<Rightarrow> Inl JSONDecodeError
                | Some u \<Rightarrow> cons_result u (scanstring r))
             else
               (case decode_hex4 r of
                  None \<Rightarrow> Inl JSONDecodeError
                | Some u \<Rightarrow>
                    if 55296 \<le> u \<and> u \<le> 56319 \<and> startswith (drop 4 r) [92, 117] then
                      (case decode_hex4 (drop 6 r) of
                         None \<Rightarrow> Inl JSONDecodeError
                       | Some u2 \<Rightarrow>
                           if 56320 \<le> u2 \<and> u2 \<le> 57343
                           then cons_result (65536 + (u - 55296) * 1024 + (u2 - 56320))
                                  (scanstring (drop 10 r))
                           else cons_result u (scanstring (drop 4 r)))
                    else cons_result u (scanstring (drop 4 r)))))"

definition is_digit :: "nat \<Rightarrow> bool" where
  "is_digit c \<longleftrightarrow> 48 \<le> c \<and> c \<le> 57"

definition digits_value :: "pystr \<Rightarrow> nat" where
  "digits_value ds = foldl (\<lambda>a d. 10 * a + (d - 48)) 0 ds"

text \<open>
  What follows the digits of a number makes it a float: a point and a digit, or \<open>e\<close> or
  \<open>E\<close>, an optional sign and a digit.
\<close>

definition float_tail :: "pystr \<Rightarrow> bool" where
  "float_tail s \<longleftrightarrow>
     (case s of
        c # d # rest \<Rightarrow>
          (c = 46 \<and> is_digit d) \<or>
          ((c = 101 \<or> c = 69) \<and>
           (is_digit d \<or>
            ((d = 43 \<or> d = 45) \<and> (case rest of [] \<Rightarrow> False | x # xs \<Rightarrow> is_digit x))))
      | _ \<Rightarrow> False)"

definition max_str_digits :: nat where
  "max_str_digits = 4300"

definition scan_natural :: "pystr \<Rightarrow> nat scanned" where
  "scan_natural s =
     (case s of
        [] \<Rightarrow> Inl JSONDecodeError
      | c # cs \<Rightarrow>
          if c = 48 then (if float_tail cs then Inl JSONDecodeError else Inr (0, cs))
          else if is_digit c then
            (if float_tail (dropWhile is_digit s) then Inl JSONDecodeError
             else if max_str_digits < length (takeWhile is_digit s) then Inl ValueError
             else Inr (digits_value (takeWhile is_digit s), dropWhile is_digit s))
          else Inl JSONDecodeError)"

definition scan_integer :: "pystr \<Rightarrow> json scanned" where
  "scan_integer s =
     (case s of
        [] \<Rightarrow> Inl JSONDecodeError
      | c # cs \<Rightarrow>
          if c = 45 then map_sum id (\<lambda>(n, rest). (JInt (- int n), rest)) (scan_natural cs)
          else map_sum id (\<lambda>(n, rest). (JInt (int n), rest)) (scan_natural s))"

fun dict_set :: "pystr \<Rightarrow> json \<Rightarrow> (pystr \<times> json) list \<Rightarrow> (pystr \<times> json) list" where
  "dict_set k v [] = [(k, v)]"
| "dict_set k v (p # ps) = (if fst p = k then (k, v) # ps else p # dict_set k v ps)"

definition dict_of_pairs :: "(pystr \<times> json) list \<Rightarrow> (pystr \<times> json) list" where
  "dict_of_pairs pairs = foldl (\<lambda>d p. dict_set (fst p) (snd p) d) [] pairs"

text \<open>
  The scanner reads a value, the items of an array after its \<open>[\<close>, or the members of an
  object after its \<open>{\<close>. \<open>rec\<close> is the scanner itself with less fuel; its first argument
  is the number of levels of nesting still allowed.
\<close>

datatype scan_mode = Value | Items | Members

definition cons_item :: "json \<Rightarrow> json scanned \<Rightarrow> json scanned" where
  "cons_item x r =
     (case r of
        Inl e \<Rightarrow> Inl e
      | Inr (v, rest) \<Rightarrow>
          (case v of JArr xs \<Rightarrow> Inr (JArr (x # xs), rest) | _ \<Rightarrow> Inl JSONDecodeError))"

definition cons_member :: "pystr \<Rightarrow> json \<Rightarrow> json scanned \<Rightarrow> json scanned" where
  "cons_member k v r =
     (case r of
        Inl e \<Rightarrow> Inl e
      | Inr (w, rest) \<Rightarrow>
          (case w of JObj ps \<Rightarrow> Inr (JObj ((k, v) # ps), rest) | _ \<Rightarrow> Inl JSONDecodeError))"

definition scan_value ::
  "(nat \<Rightarrow> scan_mode \<Rightarrow> pystr \<Rightarrow> json scanned) \<Rightarrow> nat \<Rightarrow> pystr \<Rightarrow> json scanned" where
  "scan_value rec depth s =
     (case s of
        [] \<Rightarrow> Inl JSONDecodeError
      | c # cs \<Rightarrow>
          if c = 34 then map_sum id (\<lambda>(t, rest). (JStr t, rest)) (scanstring cs)
          else if c = 123 then
            (if depth = 0 then Inl RecursionError
             else if startswith (skip_ws cs) [125] then Inr (JObj [], drop 1 (skip_ws cs))
             else (case rec (depth - 1) Members (skip_ws cs) of
                     Inl e \<Rightarrow> Inl e
                   | Inr (v, rest) \<Rightarrow>
                       (case v of
                          JObj ps \<Rightarrow> Inr (JObj (dict_of_pairs ps), rest)
                        | _ \<Rightarrow> Inl JSONDecodeError)))
          else if c = 91 then
            (if depth = 0 then Inl RecursionError
             else if startswith (skip_ws cs) [93] then Inr (JArr [], drop 1 (skip_ws cs))
             else rec (depth - 1) Items (skip_ws cs))
          else if startswith s (py ''null'') then Inr (JNull, drop 4 s)
          else if startswith s (py ''true'') then Inr (JBool True, drop 4 s)
          else if startswith s (py ''false'') then Inr (JBool False, drop 5 s)
          else scan_integer s)"

definition scan_items ::
  "(scan_mode \<Rightarrow> pystr \<Rightarrow> json scanned) \<Rightarrow> pystr \<Rightarrow> json scanned" where
  "scan_items rec s =
     (case rec Value s of
        Inl e \<Rightarrow> Inl e
      | Inr (x, rest) \<Rightarrow>
          (case skip_ws rest of
             [] \<Rightarrow> Inl JSONDecodeError
           | d # ds \<Rightarrow>
               if d = 93 then Inr (JArr [x], ds)
               else if d = 44 then cons_item x (rec Items (skip_ws ds))
               else Inl JSONDecodeError))"

definition scan_members ::
  "(scan_mode \<Rightarrow> pystr \<Rightarrow> json scanned) \<Rightarrow> pystr \<Rightarrow> json scanned" where
  "scan_members rec s =
     (if \<not> startswith s [34] then Inl JSONDecodeError
      else
        (case scanstring (drop 1 s) of
           Inl e \<Rightarrow> Inl e
         | Inr (k, rest) \<Rightarrow>
             if \<not> startswith (skip_ws rest) [58] then Inl JSONDecodeError
             else
               (case rec Value (skip_ws (drop 1 (skip_ws rest))) of
                  Inl e \<Rightarrow> Inl e
                | Inr (v, rest') \<Rightarrow>
                    (case skip_ws rest' of
                       [] \<Rightarrow> Inl JSONDecodeError
                     | d # ds \<Rightarrow>
                         if d = 125 then Inr (JObj [(k, v)], ds)
                         else if d = 44 then cons_member k v (rec Members (skip_ws ds))
                         else Inl JSONDecodeError))))"

primrec scan :: "nat \<Rightarrow> nat \<Rightarrow> scan_mode \<Rightarrow> pystr \<Rightarrow> json scanned" where
  "scan 0 depth m s = Inl JSONDecodeError"
| "scan (Suc n) depth m s =
     (case m of
        Value \<Rightarrow> scan_value (scan n) depth s
      | Items \<Rightarrow> scan_items (scan n depth) s
      | Members \<Rightarrow> scan_members (scan n depth) s)"

definition json_loads :: "nat \<Rightarrow> loads" where
  "json_loads depth s =
     (if startswith s [65279] then Inl JSONDecodeError
      else
        (case scan (2 * length s + 2) depth Value (skip_ws s) of
           Inl e \<Rightarrow> Inl e
         | Inr (v, rest) \<Rightarrow> if skip_ws rest = [] then Inr v else Inl JSONDecodeError))"

section \<open>Values for evaluating the programs\<close>

text \<open>
  Python's \<^verbatim>\<open>str\<close> on \<^verbatim>\<open>None\<close>, the booleans and the integers; it is only applied
  to these in the evaluations below.
\<close>

fun str_of_scalar :: "json \<Rightarrow> pystr" where
  "str_of_scalar JNull = py ''None''"
| "str_of_scalar (JBool b) = (if b then py ''True'' else py ''False'')"
| "str_of_scalar (JInt i) = int_repr i"
| "str_of_scalar (JStr s) = s"
| "str_of_scalar _ = []"

definition bob :: sender where
  "bob = \<lparr>username = py ''bob''\<rparr>"

text \<open>2024-01-02 10:03:04, with \<^verbatim>\<open>timestamp()\<close> 1704189784.1.\<close>

definition morning :: datetime where
  "morning = \<lparr>year = 2024, month = 1, day = 2, hour = 10, minute = 3, second = 4,
              timestamp = 17041897841 / 10\<rparr>"

section \<open>Notions the properties are stated with\<close>



text \<open>The end of the chat file, as a position; a missing file has none beyond 0.\<close>

definition file_size :: "chat_file \<Rightarrow> nat" where
  "file_size fs = (case fs of None \<Rightarrow> 0 | Some content \<Rightarrow> length content)"

text \<open>
  What \<^verbatim>\<open>displayed_messages\<close> holds for a message: the hashed \<open>message_id\<close>, if the
  message is a dictionary and the identifier is hashable.
\<close>

definition msg_key :: "json \<Rightarrow> pykey option" where
  "msg_key m =
     (case dict_get m (py ''message_id'') JNull of
        Inl e \<Rightarrow> None
      | Inr v \<Rightarrow> (case hash_key v of Inl e \<Rightarrow> None | Inr k \<Rightarrow> Some k))"

text \<open>All the messages the calls of \<^verbatim>\<open>read_new_messages\<close> of a run returned, in order.\<close>

definition delivered :: "(outcome \<times> system) list \<Rightarrow> json list" where
  "delivered outs = concat (map (\<lambda>p. received (fst p)) outs)"

text \<open>
  The receiver's position after a call of a run, and whether it lies within the file as
  it is after that call.
\<close>

definition cursor :: "outcome \<times> system \<Rightarrow> nat" where
  "cursor p = last_position (snd (snd p))"

definition cursor_in_file :: "outcome \<times> system \<Rightarrow> bool" where
  "cursor_in_file p \<longleftrightarrow> last_position (snd (snd p)) \<le> file_size (fst (snd p))"

text \<open>
  A send attempt is the pair of clock readings and the text. It is accepted when the
  text passes validation and the line to write can be encoded; \<open>message_of\<close> is the
  dictionary \<^verbatim>\<open>format_message\<close> builds for it and \<open>record_of\<close> the three lines
  \<^verbatim>\<open>send_message\<close> writes. \<open>noon\<close> is a second clock reading, 2024-01-02 12:00:00.
\<close>

definition noon :: datetime where
  "noon = \<lparr>year = 2024, month = 1, day = 2, hour = 12, minute = 0, second = 0,
           timestamp = 1704196800\<rparr>"

type_synonym attempt = "datetime \<times> datetime \<times> pystr"

definition accepted :: "sender \<Rightarrow> attempt \<Rightarrow> bool" where
  "accepted self a \<longleftrightarrow>
     fst (validate_message (snd (snd a))) \<and> encodable (human_format self (fst a) (snd (snd a)))"

definition message_of :: "sender \<Rightarrow> attempt \<Rightarrow> json" where
  "message_of self a = format_message self (fst a) (fst (snd a)) (snd (snd a))"

definition record_of :: "sender \<Rightarrow> attempt \<Rightarrow> pystr" where
  "record_of self a =
     human_format self (fst a) (snd (snd a)) @ json_format (message_of self a) @ separator"

definition sent_messages :: "sender \<Rightarrow> attempt list \<Rightarrow> json list" where
  "sent_messages self attempts = map (message_of self) (filter (accepted self) attempts)"

definition assigned_ids :: "sender \<Rightarrow> attempt list \<Rightarrow> int list" where
  "assigned_ids self attempts =
     map (\<lambda>a. generate_message_id (fst (snd a))) (filter (accepted self) attempts)"

text \<open>Consecutive integers: each is its predecessor plus one.\<close>

fun gapless :: "int list \<Rightarrow> bool" where
  "gapless (x # y # ys) \<longleftrightarrow> y = x + 1 \<and> gapless (y # ys)"
| "gapless _ \<longleftrightarrow> True"

text \<open>The three lines of a record, without their line ends.\<close>

definition record_lines :: "sender \<Rightarrow> attempt \<Rightarrow> pystr list" where
  "record_lines self a =
     [[91] @ strftime (fst a) @ [93, 32] @ username self @ [58, 32] @ snd (snd a),
      py ''JSON: '' @ json_dumps (message_of self a),
      replicate 50 45]"

text \<open>
  The messages stored in the file: those of its lines that, stripped, start with
  \<open>JSON: \<close> and continue with a text that \<^verbatim>\<open>json.loads\<close> decodes. They are what the
  extraction loop of \<^verbatim>\<open>show_existing_messages\<close> finds whenever it reaches the end of
  the file (\<open>extract_lines_stored\<close> below).
\<close>

definition line_message :: "loads \<Rightarrow> pystr \<Rightarrow> json list" where
  "line_message loads line0 =
     (if startswith (strip line0) (py ''JSON: '') then
        (case loads (drop 6 (strip line0)) of Inl e \<Rightarrow> [] | Inr message_data \<Rightarrow> [message_data])
      else [])"

definition stored_messages :: "loads \<Rightarrow> chat_file \<Rightarrow> json list" where
  "stored_messages loads fs =
     (case fs of
        None \<Rightarrow> []
      | Some content \<Rightarrow>
          concat (map (line_message loads) (readlines (universal_newlines content))))"

section \<open>Facts about the string operations\<close>

lemma split_nonempty: "split sep s \<noteq> []"
  by (induction s) (auto split: list.splits)

lemma split_no_sep: "sep \<notin> set s \<Longrightarrow> split sep s = [s]"
  by (induction s) auto

lemma split_append_sep: "sep \<notin> set a \<Longrightarrow> split sep (a @ sep # b) = a # split sep b"
  by (induction a) auto

lemma split_with_sep:
  assumes "sep \<in> set s"
  shows "\<exists>a b rest. split sep s = a # b # rest"
proof -
  from assms obtain a b where s: "s = a @ sep # b" and a: "sep \<notin> set a"
    by (auto dest: split_list_first)
  obtain x xs where "split sep b = x # xs"
    using split_nonempty [of sep b] by (cases "split sep b") auto
  with s a show ?thesis
    by (simp add: split_append_sep)
qed

lemma digits_range: "c \<in> set (digits n) \<Longrightarrow> 48 \<le> c \<and> c \<le> 57"
proof (induction n rule: digits.induct)
  case (1 n)
  show ?case
  proof (cases "n < 10")
    case True
    with "1.prems" show ?thesis by (simp add: digits.simps [of n])
  next
    case False
    with "1.prems" "1.IH" show ?thesis
      by (auto simp: digits.simps [of n])
  qed
qed

lemma zfill_digits_range: "c \<in> set (zfill w (digits n)) \<Longrightarrow> 48 \<le> c \<and> c \<le> 57"
  by (auto simp: zfill_def dest: digits_range)

lemma strftime_split:
  "split 32 (strftime d) =
     [zfill 4 (digits (year d)) @ [45] @ zfill 2 (digits (month d)) @ [45] @
        zfill 2 (digits (day d)),
      zfill 2 (digits (hour d)) @ [58] @ zfill 2 (digits (minute d)) @ [58] @
        zfill 2 (digits (second d))]"
proof -
  let ?date = "zfill 4 (digits (year d)) @ [45] @ zfill 2 (digits (month d)) @ [45] @
        zfill 2 (digits (day d))"
  let ?time = "zfill 2 (digits (hour d)) @ [58] @ zfill 2 (digits (minute d)) @ [58] @
        zfill 2 (digits (second d))"
  have d: "32 \<notin> set ?date" by (auto dest: zfill_digits_range)
  have t: "32 \<notin> set ?time" by (auto dest: zfill_digits_range)
  have "strftime d = ?date @ 32 # ?time" by (simp add: strftime_def)
  then show ?thesis
    using split_append_sep [OF d, of ?time] split_no_sep [OF t] by simp
qed


lemma split_first:
  "\<exists>rest. split sep s = takeWhile (\<lambda>c. c \<noteq> sep) s # rest"
  by (induction s) auto

lemmas str_eval =
  py_def strip_def isspace_def startswith_def lower_def lower_cp_def zfill_def
  digits.simps int_repr_def

lemma scan_numeral:
  "scan (numeral k) depth m s =
     (case m of
        Value \<Rightarrow> scan_value (scan (pred_numeral k)) depth s
      | Items \<Rightarrow> scan_items (scan (pred_numeral k) depth) s
      | Members \<Rightarrow> scan_members (scan (pred_numeral k) depth) s)"
  by (simp add: numeral_eq_Suc)

lemmas json_eval =
  py_def json_loads_def scan_numeral scan_value_def scan_items_def scan_members_def
  cons_item_def cons_member_def dict_of_pairs_def scan_integer_def scan_natural_def
  digits_value_def is_digit_def skip_ws_def is_ws_def startswith_def cons_result_def
  unescape_def decode_hex4_def hex_val_def float_tail_def max_str_digits_def

lemmas receiver_eval =
  read_new_messages_def show_existing_messages_def read_line_def extract_line_def
  display_one_def init_receiver_def strip_def isspace_def slice_from_def
  decode_def encodable_def

section \<open>Validation of a message text\<close>



section \<open>Rendering a message\<close>

lemma time_part_of_space:
  assumes "32 \<notin> set d"
  shows "time_part_of (JStr (d @ 32 # t)) = Inr (takeWhile (\<lambda>c. c \<noteq> 32) t)"
proof -
  obtain rest where "split 32 t = takeWhile (\<lambda>c. c \<noteq> 32) t # rest"
    using split_first [of 32 t] by blast
  with assms show ?thesis
    by (simp add: time_part_of_def split_append_sep)
qed

lemma time_part_of_no_space:
  "32 \<notin> set ts \<Longrightarrow> time_part_of (JStr ts) = Inl IndexError"
  by (simp add: time_part_of_def split_no_sep)

lemma time_part_of_strftime:
  "time_part_of (JStr (strftime d)) =
     Inr (zfill 2 (digits (hour d)) @ [58] @ zfill 2 (digits (minute d)) @ [58] @
          zfill 2 (digits (second d)))"
  by (simp add: time_part_of_def strftime_split)

lemma format_message_display_general:
  assumes "map_of kvs (py ''timestamp'') = Some (JStr (d @ 32 # t))" and "32 \<notin> set d"
  shows "format_message_display py_str (JObj kvs) =
     Inr ([128172, 32, 91] @ takeWhile (\<lambda>c. c \<noteq> 32) t @ [93, 32] @
          fstr py_str (case map_of kvs (py ''username'') of
                         None \<Rightarrow> JStr (py ''Unknown user'') | Some v \<Rightarrow> v) @ [58, 32] @
          fstr py_str (case map_of kvs (py ''message'') of None \<Rightarrow> JStr [] | Some v \<Rightarrow> v))"
  using assms by (simp add: format_message_display_def time_part_of_space split: option.splits)

lemma format_message_display_sent:
  "format_message_display py_str (format_message self now1 now2 message_text) =
     Inr ([128172, 32, 91] @ zfill 2 (digits (hour now1)) @ [58] @
          zfill 2 (digits (minute now1)) @ [58] @ zfill 2 (digits (second now1)) @
          [93, 32] @ username self @ [58, 32] @ message_text)"
  by (simp add: format_message_display_def format_message_def time_part_of_strftime
      fstr_def py_def)

text \<open>
  C10: for a dictionary whose \<open>timestamp\<close> is a string, \<^verbatim>\<open>format_message_display\<close>
  raises \<^verbatim>\<open>IndexError\<close> exactly when the string has no space, and returns a string
  whenever it has one; the witness has a dictionary of each kind.
\<close>

theorem format_message_display_IndexError_iff:
  assumes "map_of kvs (py ''timestamp'') = Some (JStr ts)"
  shows "(format_message_display py_str (JObj kvs) = Inl IndexError \<longleftrightarrow> 32 \<notin> set ts) \<and>
         (32 \<in> set ts \<longrightarrow> (\<exists>out. format_message_display py_str (JObj kvs) = Inr out))"
proof (cases "32 \<in> set ts")
  case True
  then obtain d t where "ts = d @ 32 # t" "32 \<notin> set d"
    by (auto dest: split_list_first)
  with assms True show ?thesis
    by (simp add: format_message_display_def time_part_of_space split: option.splits)
next
  case False
  with assms show ?thesis
    by (simp add: format_message_display_def time_part_of_no_space split: option.splits)
qed

theorem format_message_display_IndexError_witness:
  "map_of [(py ''timestamp'', JStr (py ''1704189784'')), (py ''username'', JStr (py ''bob'')),
           (py ''message'', JStr (py ''hi'')), (py ''message_id'', JInt 1704189784100)]
     (py ''timestamp'') = Some (JStr (py ''1704189784'')) \<and>
   32 \<notin> set (py ''1704189784'') \<and>
   format_message_display str_of_scalar
     (JObj [(py ''timestamp'', JStr (py ''1704189784'')), (py ''username'', JStr (py ''bob'')),
            (py ''message'', JStr (py ''hi'')), (py ''message_id'', JInt 1704189784100)])
     = Inl IndexError \<and>
   32 \<in> set (strftime morning) \<and>
   format_message_display str_of_scalar (format_message bob morning morning (py ''hi''))
     = Inr ([128172, 32] @ py ''[10:03:04] bob: hi'')"
  using format_message_display_IndexError_iff
    [of "[(py ''timestamp'', JStr (py ''1704189784'')), (py ''username'', JStr (py ''bob'')),
          (py ''message'', JStr (py ''hi'')), (py ''message_id'', JInt 1704189784100)]"
        "py ''1704189784''" str_of_scalar]
  by (simp add: format_message_display_def format_message_def time_part_of_def strftime_def
      morning_def bob_def fstr_def str_eval)

text \<open>
  C8, as the claim states it: the rendering is exactly \<open>[time] author: body\<close>. For the
  message \<open>hi\<close> that \<open>bob\<close> sends at 10:03:04 the rendering starts with the speech-balloon
  character U+1F4AC and a space, so it is not the string \<open>[10:03:04] bob: hi\<close>.
\<close>

theorem format_message_display_no_plain_form:
  "format_message_display str_of_scalar (format_message bob morning morning (py ''hi'')) =
     Inr ([128172, 32] @ py ''[10:03:04] bob: hi'') \<and>
   format_message_display str_of_scalar (format_message bob morning morning (py ''hi'')) \<noteq>
     Inr (py ''[10:03:04] bob: hi'')"
  by (simp add: format_message_display_sent morning_def bob_def str_eval)

text \<open>
  C8, amended: a dictionary whose \<open>timestamp\<close> is a string with a space in it is rendered
  as U+1F4AC, a space, then \<open>[time] author: body\<close>, where \<open>time\<close> is the text between the
  first and the second space of the timestamp and author and body are the \<open>username\<close>
  and \<open>message\<close> fields (\<open>Unknown user\<close> and the empty string when absent); a message
  built by \<^verbatim>\<open>format_message\<close> is rendered with its time of day \<open>HH:MM:SS\<close>, the
  sender's name and the text.
\<close>

theorem format_message_display_form:
  "(map_of kvs (py ''timestamp'') = Some (JStr (d @ 32 # t)) \<and> 32 \<notin> set d \<longrightarrow>
      format_message_display py_str (JObj kvs) =
        Inr ([128172, 32, 91] @ takeWhile (\<lambda>c. c \<noteq> 32) t @ [93, 32] @
             fstr py_str (case map_of kvs (py ''username'') of
                            None \<Rightarrow> JStr (py ''Unknown user'') | Some v \<Rightarrow> v) @ [58, 32] @
             fstr py_str (case map_of kvs (py ''message'') of
                            None \<Rightarrow> JStr [] | Some v \<Rightarrow> v))) \<and>
   format_message_display py_str (format_message self now1 now2 message_text) =
     Inr ([128172, 32, 91] @ zfill 2 (digits (hour now1)) @ [58] @
          zfill 2 (digits (minute now1)) @ [58] @ zfill 2 (digits (second now1)) @
          [93, 32] @ username self @ [58, 32] @ message_text)"
  using format_message_display_general [of kvs d t py_str]
    format_message_display_sent [of py_str self now1 now2 message_text]
  by blast

theorem format_message_display_form_witness:
  "map_of [(py ''timestamp'', JStr (py ''2024-01-02 10:03:04'')), (py ''message'', JStr (py ''hi''))]
     (py ''timestamp'') = Some (JStr (py ''2024-01-02'' @ 32 # py ''10:03:04'')) \<and>
   32 \<notin> set (py ''2024-01-02'') \<and>
   format_message_display str_of_scalar
     (JObj [(py ''timestamp'', JStr (py ''2024-01-02 10:03:04'')), (py ''message'', JStr (py ''hi''))]) =
     Inr ([128172, 32] @ py ''[10:03:04] Unknown user: hi'')"
  using format_message_display_form
    [of "[(py ''timestamp'', JStr (py ''2024-01-02 10:03:04'')), (py ''message'', JStr (py ''hi''))]"
        "py ''2024-01-02''" "py ''10:03:04''" str_of_scalar bob morning morning "[]"]
  by (simp add: fstr_def py_def)

section \<open>Lines that are not messages\<close>



















section \<open>A message is delivered at most once\<close>

lemma read_line_cases:
  assumes "read_line loads l (msgs, disp) = Inr (msgs', disp')"
  shows "(msgs' = msgs \<and> disp' = disp) \<or>
         (\<exists>m k. msgs' = msgs @ [m] \<and> disp' = insert k disp \<and> k \<notin> disp \<and> msg_key m = Some k)"
proof -
  from assms have
    "(msgs' = msgs \<and> disp' = disp) \<or>
     (\<exists>m v k. msgs' = msgs @ [m] \<and> disp' = insert k disp \<and> k \<notin> disp \<and>
        dict_get m (py ''message_id'') JNull = Inr v \<and> hash_key v = Inr k)"
    by (auto simp: read_line_def Let_def split: if_splits option.splits sum.splits)
  then show ?thesis
  proof
    assume "msgs' = msgs \<and> disp' = disp"
    then show ?thesis by blast
  next
    assume "\<exists>m v k. msgs' = msgs @ [m] \<and> disp' = insert k disp \<and> k \<notin> disp \<and>
        dict_get m (py ''message_id'') JNull = Inr v \<and> hash_key v = Inr k"
    then obtain m v k where
      "msgs' = msgs @ [m]" "disp' = insert k disp" "k \<notin> disp"
      "dict_get m (py ''message_id'') JNull = Inr v" "hash_key v = Inr k"
      by blast
    moreover from this have "msg_key m = Some k" by (simp add: msg_key_def)
    ultimately show ?thesis by blast
  qed
qed

lemma read_lines_inv:
  assumes "read_lines loads ls (msgs, disp) = (err, msgs', disp')"
  shows "\<exists>new. msgs' = msgs @ new \<and> disp \<subseteq> disp' \<and> distinct (map msg_key new) \<and>
               (\<forall>m \<in> set new. \<exists>k. msg_key m = Some k \<and> k \<notin> disp \<and> k \<in> disp')"
  using assms
proof (induction ls arbitrary: msgs disp)
  case Nil
  then show ?case by simp
next
  case (Cons l ls)
  show ?case
  proof (cases "read_line loads l (msgs, disp)")
    case (Inl e)
    with Cons.prems show ?thesis by simp
  next
    case (Inr st)
    obtain msgs1 disp1 where st: "st = (msgs1, disp1)" by (cases st)
    with Inr Cons.prems have rest: "read_lines loads ls (msgs1, disp1) = (err, msgs', disp')"
      by simp
    from Cons.IH [OF rest] obtain new where new:
      "msgs' = msgs1 @ new" "disp1 \<subseteq> disp'" "distinct (map msg_key new)"
      "\<forall>m \<in> set new. \<exists>k. msg_key m = Some k \<and> k \<notin> disp1 \<and> k \<in> disp'"
      by blast
    from read_line_cases [OF Inr [unfolded st]]
    show ?thesis
    proof
      assume "msgs1 = msgs \<and> disp1 = disp"
      with new show ?thesis by blast
    next
      assume "\<exists>m k. msgs1 = msgs @ [m] \<and> disp1 = insert k disp \<and> k \<notin> disp \<and> msg_key m = Some k"
      then obtain m k where mk:
        "msgs1 = msgs @ [m]" "disp1 = insert k disp" "k \<notin> disp" "msg_key m = Some k"
        by blast
      have "msgs' = msgs @ (m # new)" using new(1) mk(1) by simp
      moreover have "disp \<subseteq> disp'" using new(2) mk(2) by blast
      moreover have "distinct (map msg_key (m # new))"
        using new(3,4) mk(2,4) by auto
      moreover have "\<forall>x \<in> set (m # new). \<exists>k. msg_key x = Some k \<and> k \<notin> disp \<and> k \<in> disp'"
        using new(2,4) mk(2,3,4) by auto
      ultimately show ?thesis by blast
    qed
  qed
qed

lemma read_new_messages_inv:
  assumes "read_new_messages loads r fs = (msgs, r', err)"
  shows "displayed_messages r \<subseteq> displayed_messages r' \<and> distinct (map msg_key msgs) \<and>
         (\<forall>m \<in> set msgs. \<exists>k. msg_key m = Some k \<and> k \<notin> displayed_messages r \<and>
                                k \<in> displayed_messages r')"
proof (cases fs)
  case None
  with assms show ?thesis by (auto simp: read_new_messages_def)
next
  case (Some content)
  let ?new = "universal_newlines (drop (last_position r) content)"
  show ?thesis
  proof (cases "encodable (drop (last_position r) content)")
    case False
    with Some assms show ?thesis by (auto simp: read_new_messages_def decode_def)
  next
    case enc: True
    show ?thesis
    proof (cases "strip ?new = []")
      case True
      with Some enc assms show ?thesis by (auto simp: read_new_messages_def decode_def)
    next
      case False
      obtain e ms d where rl:
        "read_lines loads (split 10 ?new) ([], displayed_messages r) = (e, ms, d)"
        by (cases "read_lines loads (split 10 ?new) ([], displayed_messages r)") auto
      with Some enc False assms have res: "msgs = ms" "displayed_messages r' = d"
        by (auto simp: read_new_messages_def decode_def)
      from read_lines_inv [OF rl] res show ?thesis by auto
    qed
  qed
qed

lemma display_one_mono:
  "display_one py_str m (printed, disp) = (err, printed', disp') \<Longrightarrow> disp \<subseteq> disp'"
  by (auto simp: display_one_def split: sum.splits if_splits)

lemma display_all_mono:
  "display_all py_str ms (printed, disp) = (err, printed', disp') \<Longrightarrow> disp \<subseteq> disp'"
proof (induction ms arbitrary: printed disp)
  case Nil
  then show ?case by simp
next
  case (Cons m ms)
  obtain e p1 d1 where one: "display_one py_str m (printed, disp) = (e, p1, d1)"
    by (cases "display_one py_str m (printed, disp)") auto
  from display_one_mono [OF one] have sub: "disp \<subseteq> d1" .
  show ?case
  proof (cases e)
    case None
    with one Cons.prems have "display_all py_str ms (p1, d1) = (err, printed', disp')" by simp
    from Cons.IH [OF this] sub show ?thesis by blast
  next
    case (Some x)
    with one Cons.prems sub show ?thesis by simp
  qed
qed

lemma show_existing_messages_cases:
  assumes "show_existing_messages loads py_str count r fs = (printed, r', err)"
  shows "displayed_messages r \<subseteq> displayed_messages r' \<and>
         (last_position r' = last_position r \<or>
          (\<exists>content. fs = Some content \<and> last_position r' = length content))"
proof (cases fs)
  case None
  with assms show ?thesis by (auto simp: show_existing_messages_def)
next
  case (Some content)
  show ?thesis
  proof (cases "encodable content")
    case False
    with Some assms show ?thesis by (auto simp: show_existing_messages_def decode_def)
  next
    case enc: True
    show ?thesis
    proof (cases "extract_lines loads (readlines (universal_newlines content)) []")
      case (Inl x)
      with Some enc assms show ?thesis by (auto simp: show_existing_messages_def decode_def)
    next
      case (Inr ms)
      show ?thesis
      proof (cases "ms = []")
        case True
        with Some enc Inr assms show ?thesis
          by (auto simp: show_existing_messages_def decode_def)
      next
        case False
        obtain e p d where da:
          "display_all py_str (slice_from ms (- count)) ([], displayed_messages r) = (e, p, d)"
          by (cases "display_all py_str (slice_from ms (- count)) ([], displayed_messages r)")
            auto
        from display_all_mono [OF da] have "displayed_messages r \<subseteq> d" .
        with Some enc Inr False assms da show ?thesis
          by (cases e) (auto simp: show_existing_messages_def decode_def)
      qed
    qed
  qed
qed

lemma step_displayed:
  "step loads py_str c (fs, r) = (out, (fs', r')) \<Longrightarrow>
   displayed_messages r \<subseteq> displayed_messages r'"
proof (cases c)
  case (Send self now1 now2 message_text)
  assume "step loads py_str c (fs, r) = (out, (fs', r'))"
  with Send show ?thesis by (auto split: prod.splits)
next
  case ReadNew
  assume "step loads py_str c (fs, r) = (out, (fs', r'))"
  with ReadNew show ?thesis
    by (auto split: prod.splits dest: read_new_messages_inv)
next
  case (ShowExisting count)
  assume "step loads py_str c (fs, r) = (out, (fs', r'))"
  with ShowExisting show ?thesis
    by (auto split: prod.splits dest: show_existing_messages_cases)
qed

lemma step_received:
  assumes "step loads py_str c (fs, r) = (out, (fs', r'))"
  shows "distinct (map msg_key (received out)) \<and>
         (\<forall>m \<in> set (received out). \<exists>k. msg_key m = Some k \<and> k \<notin> displayed_messages r \<and>
                                          k \<in> displayed_messages r')"
proof (cases c)
  case (Send self now1 now2 message_text)
  with assms show ?thesis by (auto split: prod.splits)
next
  case ReadNew
  with assms obtain msgs err where
    "read_new_messages loads r fs = (msgs, r', err)" "out = Received msgs err"
    by (auto split: prod.splits)
  with read_new_messages_inv [of loads r fs msgs r' err] show ?thesis by simp
next
  case (ShowExisting count)
  with assms show ?thesis by (auto split: prod.splits)
qed

lemma run_delivered_inv:
  "distinct (map msg_key (delivered (run loads py_str ops (fs, r)))) \<and>
   (\<forall>m \<in> set (delivered (run loads py_str ops (fs, r))).
      \<exists>k. msg_key m = Some k \<and> k \<notin> displayed_messages r)"
proof (induction ops arbitrary: fs r)
  case Nil
  show ?case by (simp add: delivered_def)
next
  case (Cons c cs)
  obtain out fs' r' where st: "step loads py_str c (fs, r) = (out, (fs', r'))"
    by (cases "step loads py_str c (fs, r)") auto
  let ?later = "delivered (run loads py_str cs (fs', r'))"
  have d: "delivered (run loads py_str (c # cs) (fs, r)) = received out @ ?later"
    using st by (simp add: delivered_def)
  from step_received [OF st] have now:
    "distinct (map msg_key (received out))"
    "\<forall>m \<in> set (received out). \<exists>k. msg_key m = Some k \<and> k \<notin> displayed_messages r \<and>
                                     k \<in> displayed_messages r'"
    by blast+
  from Cons.IH [of fs' r'] have later:
    "distinct (map msg_key ?later)"
    "\<forall>m \<in> set ?later. \<exists>k. msg_key m = Some k \<and> k \<notin> displayed_messages r'"
    by blast+
  from step_displayed [OF st] have sub: "displayed_messages r \<subseteq> displayed_messages r'" .
  have "msg_key ` set (received out) \<inter> msg_key ` set ?later = {}"
    using now(2) later(2) by fastforce
  with now(1) later(1) have "distinct (map msg_key (received out @ ?later))"
    by simp
  moreover have "\<forall>m \<in> set (received out @ ?later).
      \<exists>k. msg_key m = Some k \<and> k \<notin> displayed_messages r"
  proof
    fix m
    assume "m \<in> set (received out @ ?later)"
    then consider "m \<in> set (received out)" | "m \<in> set ?later" by auto
    then show "\<exists>k. msg_key m = Some k \<and> k \<notin> displayed_messages r"
    proof cases
      case 1
      with now(2) show ?thesis by blast
    next
      case 2
      with later(2) obtain k where "msg_key m = Some k" "k \<notin> displayed_messages r'"
        by blast
      with sub show ?thesis by blast
    qed
  qed
  ultimately show ?case unfolding d by blast
qed

text \<open>
  C5: in every run of sends and receiver calls, from any file and any receiver state,
  the messages that the calls of \<^verbatim>\<open>read_new_messages\<close> return are pairwise different,
  and so are their identifiers: a message one call returned is in the result of no later
  call (and not twice in the same result).
\<close>

theorem delivered_once:
  "distinct (delivered (run loads py_str ops (fs, r))) \<and>
   distinct (map msg_key (delivered (run loads py_str ops (fs, r))))"
  using run_delivered_inv [of loads py_str ops fs r] by (simp add: distinct_map)

section \<open>The receiver's position in the file\<close>

lemma send_message_file_size:
  "send_message self now1 now2 message_text fs = (ok, fs') \<Longrightarrow> file_size fs \<le> file_size fs'"
  by (auto simp: send_message_def file_size_def Let_def split: prod.splits if_splits option.splits)

lemma read_new_messages_position:
  assumes "read_new_messages loads r fs = (msgs, r', err)"
  shows "last_position r' = last_position r \<or>
         last_position r' = max (last_position r) (file_size fs)"
proof (cases fs)
  case None
  with assms show ?thesis by (auto simp: read_new_messages_def file_size_def)
next
  case (Some content)
  with assms show ?thesis
    by (auto simp: read_new_messages_def decode_def file_size_def Let_def
        split: if_splits prod.splits)
qed

lemma show_existing_messages_position:
  assumes "show_existing_messages loads py_str count r fs = (printed, r', err)"
  shows "last_position r' = last_position r \<or> last_position r' = file_size fs"
  using show_existing_messages_cases [OF assms] by (auto simp: file_size_def)

lemma step_cursor:
  assumes "step loads py_str c (fs, r) = (out, (fs', r'))"
    and "last_position r \<le> file_size fs"
  shows "last_position r \<le> last_position r' \<and> last_position r' \<le> file_size fs'"
proof (cases c)
  case (Send self now1 now2 message_text)
  with assms obtain ok where "send_message self now1 now2 message_text fs = (ok, fs')" "r' = r"
    by (auto split: prod.splits)
  with assms(2) send_message_file_size [of self now1 now2 message_text fs ok fs']
  show ?thesis by simp
next
  case ReadNew
  with assms obtain msgs err where
    "read_new_messages loads r fs = (msgs, r', err)" "fs' = fs"
    by (auto split: prod.splits)
  with assms(2) read_new_messages_position [of loads r fs msgs r' err]
  show ?thesis by auto
next
  case (ShowExisting count)
  with assms obtain printed err where
    "show_existing_messages loads py_str count r fs = (printed, r', err)" "fs' = fs"
    by (auto split: prod.splits)
  with assms(2) show_existing_messages_position [of loads py_str count r fs printed r' err]
  show ?thesis by auto
qed

lemma run_cursor:
  assumes "last_position r \<le> file_size fs"
  shows "sorted (last_position r # map cursor (run loads py_str ops (fs, r))) \<and>
         list_all cursor_in_file (run loads py_str ops (fs, r))"
  using assms
proof (induction ops arbitrary: fs r)
  case Nil
  show ?case by simp
next
  case (Cons c cs)
  obtain out fs' r' where st: "step loads py_str c (fs, r) = (out, (fs', r'))"
    by (cases "step loads py_str c (fs, r)") auto
  from step_cursor [OF st Cons.prems]
  have le: "last_position r \<le> last_position r'" and inv: "last_position r' \<le> file_size fs'"
    by blast+
  from Cons.IH [OF inv] have
    s: "sorted (last_position r' # map cursor (run loads py_str cs (fs', r')))" and
    a: "list_all cursor_in_file (run loads py_str cs (fs', r'))"
    by blast+
  have run: "run loads py_str (c # cs) (fs, r) = (out, (fs', r')) # run loads py_str cs (fs', r')"
    using st by simp
  have "sorted (last_position r # last_position r' # map cursor (run loads py_str cs (fs', r')))"
    using le s by auto
  moreover have "cursor_in_file (out, (fs', r'))"
    using inv by (simp add: cursor_in_file_def)
  moreover have "cursor (out, (fs', r')) = last_position r'"
    by (simp add: cursor_def)
  ultimately show ?case
    unfolding run using a by simp
qed

text \<open>
  C7: in every run of sends, \<^verbatim>\<open>read_new_messages\<close> and \<^verbatim>\<open>show_existing_messages\<close>
  calls that starts with the position within the file (a new receiver starts at 0), the
  position never decreases from one call to the next and after every call it is at most
  the length of the file. The file only grows in such a run: the senders append.
\<close>

theorem cursor_monotone_within_file:
  assumes "last_position r \<le> file_size fs"
  shows "sorted (last_position r # map cursor (run loads py_str ops (fs, r))) \<and>
         list_all cursor_in_file (run loads py_str ops (fs, r))"
  using assms by (rule run_cursor)


theorem cursor_monotone_within_file_witness:
  "last_position init_receiver \<le> file_size (Some (py ''JSON: {\"message_id\": 5}'' @ [10])) \<and>
   map cursor (run (json_loads 1000) str_of_scalar [ReadNew, ShowExisting 10, ReadNew]
                 (Some (py ''JSON: {\"message_id\": 5}'' @ [10]), init_receiver)) = [24, 24, 24] \<and>
   sorted (last_position init_receiver #
           map cursor (run (json_loads 1000) str_of_scalar [ReadNew, ShowExisting 10, ReadNew]
                         (Some (py ''JSON: {\"message_id\": 5}'' @ [10]), init_receiver))) \<and>
   list_all cursor_in_file
     (run (json_loads 1000) str_of_scalar [ReadNew, ShowExisting 10, ReadNew]
        (Some (py ''JSON: {\"message_id\": 5}'' @ [10]), init_receiver))"
  using cursor_monotone_within_file
    [of init_receiver "Some (py ''JSON: {\"message_id\": 5}'' @ [10])" "json_loads 1000" str_of_scalar
        "[ReadNew, ShowExisting 10, ReadNew]"]
  by (simp add: cursor_def file_size_def receiver_eval json_eval
      format_message_display_def time_part_of_def fstr_def)

section \<open>A message without an identifier\<close>

text \<open>
  C4 says that a message whose \<open>message_id\<close> is absent or empty is delivered like any
  message seen for the first time. On a file whose only record has no \<open>message_id\<close>,
  \<^verbatim>\<open>read_new_messages\<close> of a new receiver returns nothing and moves past the record, so
  the message is never delivered; \<^verbatim>\<open>show_existing_messages\<close> on the same file shows
  it.
\<close>

theorem read_new_messages_drops_message_without_id:
  "read_new_messages (json_loads 1000) init_receiver
     (Some (py ''JSON: {\"timestamp\": \"2024-01-02 10:03:04\", \"username\": \"bob\", \"message\": \"hi\"}'' @ [10])) =
     ([], \<lparr>last_position = 79, displayed_messages = {}\<rparr>, None) \<and>
   show_existing_messages (json_loads 1000) str_of_scalar 10 init_receiver
     (Some (py ''JSON: {\"timestamp\": \"2024-01-02 10:03:04\", \"username\": \"bob\", \"message\": \"hi\"}'' @ [10])) =
     ([[128172, 32] @ py ''[10:03:04] bob: hi''],
      \<lparr>last_position = 79, displayed_messages = {}\<rparr>, None)"
  by (simp add: receiver_eval json_eval format_message_display_def time_part_of_def fstr_def)

section \<open>What the senders write\<close>

lemma send_message_Some:
  "send_message self now1 now2 message_text (Some c) =
     (accepted self (now1, now2, message_text),
      Some (if accepted self (now1, now2, message_text)
            then c @ record_of self (now1, now2, message_text) else c))"
  by (cases "validate_message message_text")
     (simp add: send_message_def accepted_def record_of_def message_of_def Let_def)

lemma send_all_Some:
  "send_all self attempts (Some c) =
     (map (accepted self) attempts,
      Some (c @ concat (map (record_of self) (filter (accepted self) attempts))))"
proof (induction attempts arbitrary: c)
  case Nil
  show ?case by simp
next
  case (Cons a attempts)
  obtain now1 now2 message_text where a: "a = (now1, now2, message_text)"
    by (cases a) auto
  show ?case
    unfolding a by (simp add: send_message_Some Cons.IH)
qed

lemma message_of_id:
  "dict_get (message_of self a) (py ''message_id'') JNull =
     Inr (JInt (generate_message_id (fst (snd a))))"
  by (simp add: message_of_def format_message_def py_def)

lemma py_int_mono: "x \<le> y \<Longrightarrow> py_int x \<le> py_int y"
proof -
  assume xy: "x \<le> y"
  have "\<lceil>x\<rceil> \<le> \<lfloor>y\<rfloor>" if "x < 0" "0 \<le> y"
  proof -
    from that have "\<lceil>x\<rceil> \<le> 0" by (simp add: ceiling_le_zero)
    moreover from that have "0 \<le> \<lfloor>y\<rfloor>" by simp
    ultimately show ?thesis by linarith
  qed
  with xy show ?thesis
    by (auto simp: py_int_def floor_mono ceiling_mono)
qed

lemma generate_message_id_mono:
  "timestamp a \<le> timestamp b \<Longrightarrow> generate_message_id a \<le> generate_message_id b"
  by (simp add: generate_message_id_def py_int_mono)

lemma sorted_ids:
  "sorted (map (\<lambda>a. timestamp (fst (snd a))) attempts) \<Longrightarrow>
   sorted (map (\<lambda>a. generate_message_id (fst (snd a))) (filter P attempts))"
  by (induction attempts) (force intro: generate_message_id_mono)+


lemmas sender_eval =
  accepted_def validate_message_def prohibited_words_def human_format_def encodable_def
  strftime_def generate_message_id_def py_int_def bob_def morning_def noon_def

text \<open>
  C1, as the claim states it: the identifiers of accepted messages are strictly
  increasing without gaps. Two sends of \<open>bob\<close> within the same millisecond are both
  accepted and get the same identifier.
\<close>

theorem message_ids_collide:
  "fst (send_all bob [(morning, morning, py ''a''), (morning, morning, py ''b'')] (Some [])) =
     [True, True] \<and>
   assigned_ids bob [(morning, morning, py ''a''), (morning, morning, py ''b'')] =
     [1704189784100, 1704189784100] \<and>
   \<not> sorted_wrt (<) (assigned_ids bob [(morning, morning, py ''a''), (morning, morning, py ''b'')]) \<and>
   \<not> gapless (assigned_ids bob [(morning, morning, py ''a''), (morning, morning, py ''b'')])"
  by (simp add: send_all_Some assigned_ids_def sender_eval str_eval)

text \<open>
  C1, amended: every accepted send writes exactly one record, in the order of the
  sends, and the \<open>message_id\<close> in it is the clock reading of that send in whole
  milliseconds; so the identifiers are non-decreasing whenever the clock readings are.
  They need not be different and need not be consecutive.
\<close>

theorem message_ids_follow_clock:
  "fst (send_all self attempts (Some c)) = map (accepted self) attempts \<and>
   snd (send_all self attempts (Some c)) =
     Some (c @ concat (map (record_of self) (filter (accepted self) attempts))) \<and>
   map (\<lambda>m. dict_get m (py ''message_id'') JNull) (sent_messages self attempts) =
     map (\<lambda>i. Inr (JInt i)) (assigned_ids self attempts) \<and>
   (sorted (map (\<lambda>a. timestamp (fst (snd a))) attempts) \<longrightarrow>
      sorted (assigned_ids self attempts))"
  by (simp add: send_all_Some sent_messages_def assigned_ids_def message_of_id sorted_ids
      comp_def)

theorem message_ids_follow_clock_witness:
  "sorted (map (\<lambda>a. timestamp (fst (snd a)))
             [(morning, morning, py ''a''), (morning, noon, py ''spam''), (noon, noon, py ''b'')]) \<and>
   fst (send_all bob
          [(morning, morning, py ''a''), (morning, noon, py ''spam''), (noon, noon, py ''b'')]
          (Some [])) = [True, False, True] \<and>
   assigned_ids bob
     [(morning, morning, py ''a''), (morning, noon, py ''spam''), (noon, noon, py ''b'')] =
     [1704189784100, 1704196800000] \<and>
   sorted (assigned_ids bob
     [(morning, morning, py ''a''), (morning, noon, py ''spam''), (noon, noon, py ''b'')])"
  using message_ids_follow_clock
    [of bob "[(morning, morning, py ''a''), (morning, noon, py ''spam''), (noon, noon, py ''b'')]"
        "[]"]
  by (simp add: assigned_ids_def sender_eval str_eval)

section \<open>Lines of a file\<close>

lemma strip_keeps_first:
  assumes "\<not> isspace c"
  shows "\<exists>r. strip (c # s) = c # r"
proof -
  have "dropWhile isspace (rev s @ [c]) = dropWhile isspace (rev s) @ [c]"
    using assms by (simp add: dropWhile_append3)
  with assms show ?thesis by (simp add: strip_def)
qed

lemma strip_id:
  assumes "s \<noteq> []" "\<not> isspace (hd s)" "\<not> isspace (last s)"
  shows "strip s = s"
proof -
  from assms(1,2) have "dropWhile isspace s = s"
    by (cases s) auto
  moreover from assms(1,3) have "dropWhile isspace (rev s) = rev s"
    by (cases "rev s") (auto simp: last_rev [symmetric] simp del: last_rev)
  ultimately show ?thesis by (simp add: strip_def)
qed

lemma not_json_prefix:
  assumes "\<not> isspace c" "c \<noteq> 74"
  shows "\<not> startswith (strip (c # s)) (py ''JSON: '')"
proof -
  from strip_keeps_first [OF assms(1)] obtain r where "strip (c # s) = c # r" by blast
  with assms(2) show ?thesis by (simp add: startswith_def py_def)
qed

lemma empty_not_json: "\<not> startswith (strip []) (py ''JSON: '')"
  by (simp add: startswith_def py_def strip_def)

lemma universal_newlines_id: "13 \<notin> set s \<Longrightarrow> universal_newlines s = s"
  by (induction s rule: universal_newlines.induct) auto

lemma universal_newlines_append:
  "c = [] \<or> last c \<noteq> 13 \<Longrightarrow> universal_newlines (c @ r) = universal_newlines c @ universal_newlines r"
proof (induction c rule: universal_newlines.induct)
  case 1
  show ?case by simp
next
  case (2 x)
  then show ?case by (cases r) auto
next
  case (3 x y cs)
  then show ?case by (auto split: if_splits)
qed

lemma universal_newlines_last:
  "c \<noteq> [] \<Longrightarrow> last c = 10 \<Longrightarrow> last (universal_newlines c) = 10 \<and> universal_newlines c \<noteq> []"
  by (induction c rule: universal_newlines.induct) (auto split: if_splits)

lemma split_lines:
  "\<forall>l \<in> set ls. 10 \<notin> set l \<Longrightarrow>
   split 10 (concat (map (\<lambda>l. l @ [10]) ls) @ rest) = ls @ split 10 rest"
  by (induction ls) (simp_all add: split_append_sep)

lemma readlines_line:
  "10 \<notin> set l \<Longrightarrow> readlines (l @ 10 # rest) = (l @ [10]) # readlines rest"
  by (induction l) auto

lemma readlines_lines:
  "\<forall>l \<in> set ls. 10 \<notin> set l \<Longrightarrow>
   readlines (concat (map (\<lambda>l. l @ [10]) ls) @ rest) = map (\<lambda>l. l @ [10]) ls @ readlines rest"
  by (induction ls) (simp_all add: readlines_line)

lemma readlines_append:
  "x = [] \<or> last x = 10 \<Longrightarrow> readlines (x @ y) = readlines x @ readlines y"
proof (induction x)
  case Nil
  show ?case by simp
next
  case (Cons c cs)
  show ?case
  proof (cases "cs = []")
    case True
    with Cons.prems show ?thesis by simp
  next
    case False
    with Cons.prems have "last cs = 10" by simp
    with Cons.IH have ih: "readlines (cs @ y) = readlines cs @ readlines y" by simp
    from False have "readlines cs \<noteq> []" by (cases cs) (auto split: list.splits)
    with ih show ?thesis by (cases "readlines cs") auto
  qed
qed

lemma strip_line_end: "strip (l @ [10]) = strip l"
proof (cases "\<forall>c \<in> set l. isspace c")
  case True
  have sp: "isspace 10" by (simp add: isspace_def)
  from True have "dropWhile isspace (l @ [10]) = dropWhile isspace [10]"
    by (simp add: dropWhile_append2)
  moreover from True have "dropWhile isspace l = []" by simp
  ultimately show ?thesis using sp by (simp add: strip_def del: dropWhile_eq_Nil_conv)
next
  case False
  have sp: "isspace 10" by (simp add: isspace_def)
  from False obtain x where "x \<in> set l" "\<not> isspace x" by blast
  then have "dropWhile isspace (l @ [10]) = dropWhile isspace l @ [10]"
    by (rule dropWhile_append1)
  with sp show ?thesis by (simp add: strip_def)
qed

lemma read_lines_append:
  "read_lines loads (xs @ ys) st =
     (case read_lines loads xs st of
        (None, st') \<Rightarrow> read_lines loads ys st'
      | (Some e, st') \<Rightarrow> (Some e, st'))"
  by (induction xs arbitrary: st) (auto split: sum.splits)

section \<open>The lines of a record\<close>

lemma record_of_lines:
  "record_of self a = concat (map (\<lambda>l. l @ [10]) (record_lines self a))"
  by (simp add: record_of_def record_lines_def human_format_def json_format_def separator_def)

lemma hex_digit_range: "32 \<le> hex_digit (k mod 16) \<and> hex_digit (k mod 16) \<le> 126"
proof -
  have "k mod 16 < 16" by simp
  then show ?thesis unfolding hex_digit_def by presburger
qed

lemma hex4_range: "x \<in> set (hex4 n) \<Longrightarrow> 32 \<le> x \<and> x \<le> 126"
  unfolding hex4_def
  using hex_digit_range [of "n div 4096"] hex_digit_range [of "n div 256"]
    hex_digit_range [of "n div 16"] hex_digit_range [of n]
  by fastforce

lemma escape_char_range: "x \<in> set (escape_char c) \<Longrightarrow> 32 \<le> x \<and> x \<le> 126"
  by (auto simp: escape_char_def dest: hex4_range split: if_splits)

lemma encode_range: "x \<in> set (encode_basestring_ascii s) \<Longrightarrow> 32 \<le> x \<and> x \<le> 126"
  by (auto simp: encode_basestring_ascii_def dest: escape_char_range)

lemma int_repr_range: "x \<in> set (int_repr i) \<Longrightarrow> 32 \<le> x \<and> x \<le> 126"
  by (auto simp: int_repr_def dest: digits_range split: if_splits)

lemma dumps_message:
  "json_dumps (message_of self a) =
     [123] @ encode_basestring_ascii (py ''timestamp'') @ [58, 32] @
       encode_basestring_ascii (strftime (fst a)) @ [44, 32] @
     encode_basestring_ascii (py ''username'') @ [58, 32] @
       encode_basestring_ascii (username self) @ [44, 32] @
     encode_basestring_ascii (py ''message'') @ [58, 32] @
       encode_basestring_ascii (snd (snd a)) @ [44, 32] @
     encode_basestring_ascii (py ''message_id'') @ [58, 32] @
       int_repr (generate_message_id (fst (snd a))) @ [125]"
  by (simp add: message_of_def format_message_def py_def)

lemma dumps_message_range:
  "x \<in> set (json_dumps (message_of self a)) \<Longrightarrow> 32 \<le> x \<and> x \<le> 126"
  unfolding dumps_message by (auto dest: encode_range int_repr_range)

lemma json_line_strip:
  "strip (py ''JSON: '' @ json_dumps (message_of self a)) =
     py ''JSON: '' @ json_dumps (message_of self a)"
proof (rule strip_id)
  show "py ''JSON: '' @ json_dumps (message_of self a) \<noteq> []" by (simp add: py_def)
  show "\<not> isspace (hd (py ''JSON: '' @ json_dumps (message_of self a)))"
    by (simp add: py_def isspace_def)
  show "\<not> isspace (last (py ''JSON: '' @ json_dumps (message_of self a)))"
    unfolding dumps_message by (simp add: isspace_def)
qed

lemma read_line_human:
  "read_line loads ([91] @ s) st = Inr st"
  using not_json_prefix [of 91 s] by (simp add: read_line_def isspace_def)

lemma read_line_separator:
  "read_line loads (replicate 50 45) st = Inr st"
proof -
  have "replicate 50 45 = (45::nat) # replicate 49 45" by (simp add: numeral_eq_Suc)
  with not_json_prefix [of 45 "replicate 49 45"] show ?thesis
    by (simp add: read_line_def isspace_def)
qed

lemma read_line_json:
  assumes "loads (json_dumps (message_of self a)) = Inr (message_of self a)"
    and "generate_message_id (fst (snd a)) \<noteq> 0"
    and "KNum (generate_message_id (fst (snd a))) \<notin> disp"
  shows "read_line loads (py ''JSON: '' @ json_dumps (message_of self a)) (msgs, disp) =
     Inr (msgs @ [message_of self a], insert (KNum (generate_message_id (fst (snd a)))) disp)"
proof -
  have "startswith (py ''JSON: '' @ json_dumps (message_of self a)) (py ''JSON: '')"
    by (simp add: startswith_def py_def)
  moreover have "drop 6 (py ''JSON: '' @ json_dumps (message_of self a)) =
      json_dumps (message_of self a)"
    by (simp add: py_def)
  ultimately show ?thesis
    using assms by (simp add: read_line_def json_line_strip message_of_id)
qed

lemma read_lines_record:
  assumes "loads (json_dumps (message_of self a)) = Inr (message_of self a)"
    and "generate_message_id (fst (snd a)) \<noteq> 0"
    and "KNum (generate_message_id (fst (snd a))) \<notin> disp"
  shows "read_lines loads (record_lines self a @ rest) (msgs, disp) =
     read_lines loads rest
       (msgs @ [message_of self a], insert (KNum (generate_message_id (fst (snd a)))) disp)"
  using assms read_line_json [of loads self a disp msgs]
  by (simp add: record_lines_def read_line_human [simplified] read_line_separator)

lemma encodable_append: "encodable (a @ b) \<longleftrightarrow> encodable a \<and> encodable b"
  by (simp add: encodable_def)

lemma encodable_Nil: "encodable []"
  by (simp add: encodable_def)

lemma encodable_Cons: "encodable (c # s) \<longleftrightarrow> \<not> (55296 \<le> c \<and> c \<le> 57343) \<and> encodable s"
  by (simp add: encodable_def)

lemma encodable_ascii: "(\<And>x. x \<in> set s \<Longrightarrow> x \<le> 126) \<Longrightarrow> encodable s"
  by (fastforce simp: encodable_def list_all_iff)

lemma record_encodable:
  assumes "accepted self a"
  shows "encodable (record_of self a)"
proof -
  have "encodable (human_format self (fst a) (snd (snd a)))"
    using assms by (simp add: accepted_def)
  moreover have "encodable (json_dumps (message_of self a))"
    by (rule encodable_ascii) (simp add: dumps_message_range)
  moreover have "encodable (py ''JSON: '')" "encodable [10]" "encodable separator"
    by (simp_all add: encodable_def py_def separator_def list_all_iff)
  ultimately show ?thesis
    by (simp add: record_of_def json_format_def encodable_append encodable_Cons)
qed

lemma records_encodable:
  "\<forall>a \<in> set as. accepted self a \<Longrightarrow> encodable (concat (map (record_of self) as))"
  by (induction as) (simp_all add: encodable_Nil encodable_append record_encodable)

section \<open>Reading what the senders wrote\<close>

lemma read_lines_records:
  assumes "\<forall>a \<in> set as. loads (json_dumps (message_of self a)) = Inr (message_of self a)"
    and "distinct (map (\<lambda>a. generate_message_id (fst (snd a))) as)"
    and "\<forall>a \<in> set as. generate_message_id (fst (snd a)) \<noteq> 0 \<and>
           KNum (generate_message_id (fst (snd a))) \<notin> disp"
  shows "read_lines loads (concat (map (record_lines self) as) @ rest) (msgs, disp) =
     read_lines loads rest
       (msgs @ map (message_of self) as,
        disp \<union> (\<lambda>a. KNum (generate_message_id (fst (snd a)))) ` set as)"
  using assms
proof (induction as arbitrary: msgs disp)
  case Nil
  show ?case by simp
next
  case (Cons a as)
  let ?k = "KNum (generate_message_id (fst (snd a)))"
  have step: "read_lines loads (record_lines self a @ (concat (map (record_lines self) as) @ rest))
      (msgs, disp) =
    read_lines loads (concat (map (record_lines self) as) @ rest)
      (msgs @ [message_of self a], insert ?k disp)"
    using Cons.prems by (intro read_lines_record) auto
  have "read_lines loads (concat (map (record_lines self) as) @ rest)
      (msgs @ [message_of self a], insert ?k disp) =
    read_lines loads rest
      ((msgs @ [message_of self a]) @ map (message_of self) as,
       insert ?k disp \<union> (\<lambda>a. KNum (generate_message_id (fst (snd a)))) ` set as)"
  proof (intro Cons.IH)
    show "\<forall>a \<in> set as. loads (json_dumps (message_of self a)) = Inr (message_of self a)"
      using Cons.prems(1) by simp
    show "distinct (map (\<lambda>a. generate_message_id (fst (snd a))) as)"
      using Cons.prems(2) by simp
    have na: "generate_message_id (fst (snd a)) \<notin>
        (\<lambda>a. generate_message_id (fst (snd a))) ` set as"
      using Cons.prems(2) by simp
    show "\<forall>b \<in> set as. generate_message_id (fst (snd b)) \<noteq> 0 \<and>
        KNum (generate_message_id (fst (snd b))) \<notin> insert ?k disp"
    proof
      fix b
      assume b: "b \<in> set as"
      then have "(\<lambda>a. generate_message_id (fst (snd a))) b \<in>
          (\<lambda>a. generate_message_id (fst (snd a))) ` set as"
        by (rule imageI)
      with na have "generate_message_id (fst (snd b)) \<noteq> generate_message_id (fst (snd a))"
        by metis
      with Cons.prems(3) b
      show "generate_message_id (fst (snd b)) \<noteq> 0 \<and>
        KNum (generate_message_id (fst (snd b))) \<notin> insert ?k disp"
        by simp
    qed
  qed
  with step show ?case by simp
qed

lemma strftime_chars: "x \<in> set (strftime d) \<Longrightarrow> 32 \<le> x"
  by (auto simp: strftime_def dest: zfill_digits_range)

lemma record_lines_chars:
  assumes "c < 32" "c \<notin> set (username self)" "c \<notin> set (snd (snd a))"
  shows "\<forall>l \<in> set (record_lines self a). c \<notin> set l"
proof -
  have "c \<notin> set (strftime (fst a))" using assms(1) strftime_chars [of c "fst a"] by auto
  moreover have "c \<notin> set (json_dumps (message_of self a))"
    using assms(1) dumps_message_range [of c self a] by auto
  moreover have "c \<notin> set (py ''JSON: '')" using assms(1) by (auto simp: py_def)
  ultimately show ?thesis
    using assms by (auto simp: record_lines_def)
qed

lemma records_chars:
  assumes "c < 32" "c \<notin> set (username self)" "\<forall>a \<in> set as. c \<notin> set (snd (snd a))"
  shows "\<forall>l \<in> set (concat (map (record_lines self) as)). c \<notin> set l"
  using assms record_lines_chars [of c self] by auto

lemma records_text:
  "concat (map (record_of self) as) =
     concat (map (\<lambda>l. l @ [10]) (concat (map (record_lines self) as)))"
  by (induction as) (simp_all add: record_of_lines)

lemma header_line:
  "ensure_chat_file_exists None = Some (py ''=== Chat Session Started ==='' @ [10])"
  by (simp add: ensure_chat_file_exists_def)

lemma read_line_header: "read_line loads (py ''=== Chat Session Started ==='') st = Inr st"
proof -
  have "py ''=== Chat Session Started ==='' = 61 # py ''== Chat Session Started ==='' "
    by (simp add: py_def)
  with not_json_prefix [of 61 "py ''== Chat Session Started ===''"] show ?thesis
    by (simp add: read_line_def isspace_def)
qed

lemma read_line_empty: "read_line loads [] st = Inr st"
  using empty_not_json by (simp add: read_line_def)


lemma header_chars: "x \<in> set (py ''=== Chat Session Started ==='') \<Longrightarrow> 32 \<le> x"
  by (auto simp: py_def)

lemma fresh_file_lines:
  assumes user: "10 \<notin> set (username self)" "13 \<notin> set (username self)"
    and texts: "\<forall>a \<in> set as. 10 \<notin> set (snd (snd a)) \<and> 13 \<notin> set (snd (snd a))"
    and acc: "\<forall>a \<in> set as. accepted self a"
  shows "read_new_messages loads init_receiver
           (Some (py ''=== Chat Session Started ==='' @ [10] @ concat (map (record_of self) as))) =
     (case read_lines loads (concat (map (record_lines self) as) @ [[]]) ([], {}) of
        (err, new_messages, displayed) \<Rightarrow>
          (new_messages,
           \<lparr>last_position =
              length (py ''=== Chat Session Started ==='' @ [10] @
                      concat (map (record_of self) as)),
            displayed_messages = displayed\<rparr>,
           err))"
proof -
  let ?hdr = "py ''=== Chat Session Started ===''"
  let ?lines = "?hdr # concat (map (record_lines self) as)"
  let ?content = "?hdr @ [10] @ concat (map (record_of self) as)"
  have content: "?content = concat (map (\<lambda>l. l @ [10]) ?lines)"
    by (simp add: records_text)
  have no10: "\<forall>l \<in> set ?lines. 10 \<notin> set l"
    using records_chars [of 10 self as] user(1) texts header_chars [of 10] by auto
  have no13: "\<forall>l \<in> set ?lines. 13 \<notin> set l"
    using records_chars [of 13 self as] user(2) texts header_chars [of 13] by auto
  have "13 \<notin> set ?content"
    unfolding content using no13 by auto
  then have un: "universal_newlines ?content = ?content"
    by (rule universal_newlines_id)
  have sp: "split 10 ?content = ?lines @ [[]]"
    using split_lines [OF no10, of "[]"] unfolding content by simp
  have "?content = 61 # (py ''== Chat Session Started ==='' @ [10] @ concat (map (record_of self) as))"
    by (simp add: py_def)
  moreover have "\<not> isspace 61" by (simp add: isspace_def)
  ultimately have ne: "strip ?content \<noteq> []"
    using strip_keeps_first [of 61 "py ''== Chat Session Started ==='' @ [10] @ concat (map (record_of self) as)"]
    by auto
  have "encodable ?hdr" "encodable [10]"
    by (simp_all add: encodable_def py_def)
  with records_encodable [OF acc] have enc: "encodable ?content"
    by (simp add: encodable_append encodable_Cons)
  show ?thesis
    unfolding read_new_messages_def
    using un sp ne enc by (simp add: init_receiver_def read_line_header decode_def)
qed

lemma read_fresh_file:
  assumes rt: "\<forall>a \<in> set as. loads (json_dumps (message_of self a)) = Inr (message_of self a)"
    and dist: "distinct (map (\<lambda>a. generate_message_id (fst (snd a))) as)"
    and nz: "\<forall>a \<in> set as. generate_message_id (fst (snd a)) \<noteq> 0"
    and user: "10 \<notin> set (username self)" "13 \<notin> set (username self)"
    and texts: "\<forall>a \<in> set as. 10 \<notin> set (snd (snd a)) \<and> 13 \<notin> set (snd (snd a))"
    and acc: "\<forall>a \<in> set as. accepted self a"
  shows "read_new_messages loads init_receiver
           (Some (py ''=== Chat Session Started ==='' @ [10] @ concat (map (record_of self) as))) =
     (map (message_of self) as,
      \<lparr>last_position =
         length (py ''=== Chat Session Started ==='' @ [10] @ concat (map (record_of self) as)),
       displayed_messages = (\<lambda>a. KNum (generate_message_id (fst (snd a)))) ` set as\<rparr>,
      None)"
proof -
  have "read_lines loads (concat (map (record_lines self) as) @ [[]]) ([], {}) =
    read_lines loads [[]]
      ([] @ map (message_of self) as,
       {} \<union> (\<lambda>a. KNum (generate_message_id (fst (snd a)))) ` set as)"
    using rt dist nz by (intro read_lines_records) auto
  also have "\<dots> = (None, map (message_of self) as,
       (\<lambda>a. KNum (generate_message_id (fst (snd a)))) ` set as)"
    by (simp add: read_line_empty)
  finally show ?thesis
    using fresh_file_lines [OF user texts acc, of loads] by simp
qed

lemma read_lines_record_seen:
  assumes "loads (json_dumps (message_of self a)) = Inr (message_of self a)"
    and "KNum (generate_message_id (fst (snd a))) \<in> disp"
  shows "read_lines loads (record_lines self a @ rest) (msgs, disp) =
     read_lines loads rest (msgs, disp)"
proof -
  have "startswith (py ''JSON: '' @ json_dumps (message_of self a)) (py ''JSON: '')"
    by (simp add: startswith_def py_def)
  moreover have "drop 6 (py ''JSON: '' @ json_dumps (message_of self a)) =
      json_dumps (message_of self a)"
    by (simp add: py_def)
  ultimately have "read_line loads (py ''JSON: '' @ json_dumps (message_of self a)) (msgs, disp) =
      Inr (msgs, disp)"
    using assms by (simp add: read_line_def json_line_strip message_of_id)
  then show ?thesis
    by (simp add: record_lines_def read_line_human [simplified] read_line_separator)
qed

lemmas dumps_eval =
  message_of_def format_message_def encode_basestring_ascii_def escape_char_def

lemma roundtrip_a:
  "json_loads 1000 (json_dumps (message_of bob (morning, morning, py ''a''))) =
     Inr (message_of bob (morning, morning, py ''a''))"
  by (simp add: dumps_eval sender_eval json_eval str_eval)

lemma roundtrip_b:
  "json_loads 1000 (json_dumps (message_of bob (morning, morning, py ''b''))) =
     Inr (message_of bob (morning, morning, py ''b''))"
  by (simp add: dumps_eval sender_eval json_eval str_eval)

lemma roundtrip_noon_b:
  "json_loads 1000 (json_dumps (message_of bob (noon, noon, py ''b''))) =
     Inr (message_of bob (noon, noon, py ''b''))"
  by (simp add: dumps_eval sender_eval json_eval str_eval)

lemma accepted_a: "accepted bob (morning, morning, py ''a'')"
  by (simp add: sender_eval str_eval)

lemma accepted_b: "accepted bob (morning, morning, py ''b'')"
  by (simp add: sender_eval str_eval)

lemma accepted_noon_b: "accepted bob (noon, noon, py ''b'')"
  by (simp add: sender_eval str_eval)

lemma rejected_spam: "\<not> accepted bob (morning, noon, py ''spam'')"
  by (simp add: sender_eval str_eval)

lemma id_morning: "generate_message_id morning = 1704189784100"
  by (simp add: sender_eval)

lemma id_noon: "generate_message_id noon = 1704196800000"
  by (simp add: sender_eval)

text \<open>
  C6, as the claim states it: after N successful sends a new receiver reads exactly
  those N messages. \<open>bob\<close> sends \<open>a\<close> and \<open>b\<close> within the same millisecond into a new
  file; both sends succeed, and the new receiver reads only the first message, because
  the second carries the same \<open>message_id\<close>.
\<close>

theorem same_millisecond_message_lost:
  "fst (send_all bob [(morning, morning, py ''a''), (morning, morning, py ''b'')]
          (ensure_chat_file_exists None)) = [True, True] \<and>
   fst (read_new_messages (json_loads 1000) init_receiver
          (snd (send_all bob [(morning, morning, py ''a''), (morning, morning, py ''b'')]
                  (ensure_chat_file_exists None)))) =
     [message_of bob (morning, morning, py ''a'')]"
proof -
  let ?a = "(morning, morning, py ''a'')"
  let ?b = "(morning, morning, py ''b'')"
  have user: "10 \<notin> set (username bob)" "13 \<notin> set (username bob)"
    by (simp_all add: bob_def py_def)
  have texts: "\<forall>x \<in> set [?a, ?b]. 10 \<notin> set (snd (snd x)) \<and> 13 \<notin> set (snd (snd x))"
    by (simp add: py_def)
  have acc: "\<forall>x \<in> set [?a, ?b]. accepted bob x"
    by (simp add: accepted_a accepted_b)
  have "read_lines (json_loads 1000) (concat (map (record_lines bob) [?a, ?b]) @ [[]]) ([], {}) =
      read_lines (json_loads 1000) (record_lines bob ?b @ [[]])
        ([message_of bob ?a], {KNum 1704189784100})"
    using read_lines_record [of "json_loads 1000" bob ?a "{}" "record_lines bob ?b @ [[]]" "[]"]
    by (simp add: roundtrip_a id_morning)
  also have "\<dots> = read_lines (json_loads 1000) [[]] ([message_of bob ?a], {KNum 1704189784100})"
    by (rule read_lines_record_seen) (simp_all add: roundtrip_b id_morning)
  also have "\<dots> = (None, [message_of bob ?a], {KNum 1704189784100})"
    by (simp add: read_line_empty)
  finally have "fst (read_new_messages (json_loads 1000) init_receiver
      (Some (py ''=== Chat Session Started ==='' @ [10] @ concat (map (record_of bob) [?a, ?b])))) =
      [message_of bob ?a]"
    using fresh_file_lines [OF user texts acc, of "json_loads 1000"] by simp
  then show ?thesis
    by (simp add: header_line send_all_Some accepted_a accepted_b)
qed

text \<open>
  C6, amended: a sender creates the file and makes its sends; when the identifiers of
  the accepted messages are pairwise different and not 0, neither the sender's name nor
  an accepted text contains a line feed or carriage return, and \<^verbatim>\<open>json.loads\<close> gives
  back each message from its \<^verbatim>\<open>json.dumps\<close> text, then \<^verbatim>\<open>read_new_messages\<close> of a new
  receiver returns exactly the accepted messages in the order they were sent, catches
  no exception, and ends at the end of the file.
\<close>

theorem read_completeness:
  assumes "\<forall>m \<in> set (sent_messages self attempts). loads (json_dumps m) = Inr m"
    and "distinct (assigned_ids self attempts)"
    and "0 \<notin> set (assigned_ids self attempts)"
    and "10 \<notin> set (username self)" and "13 \<notin> set (username self)"
    and "\<forall>a \<in> set attempts. accepted self a \<longrightarrow>
           10 \<notin> set (snd (snd a)) \<and> 13 \<notin> set (snd (snd a))"
  shows "read_new_messages loads init_receiver
           (snd (send_all self attempts (ensure_chat_file_exists None))) =
     (sent_messages self attempts,
      \<lparr>last_position = file_size (snd (send_all self attempts (ensure_chat_file_exists None))),
       displayed_messages = KNum ` set (assigned_ids self attempts)\<rparr>,
      None)"
proof -
  let ?as = "filter (accepted self) attempts"
  have "read_new_messages loads init_receiver
           (Some (py ''=== Chat Session Started ==='' @ [10] @ concat (map (record_of self) ?as))) =
     (map (message_of self) ?as,
      \<lparr>last_position =
         length (py ''=== Chat Session Started ==='' @ [10] @ concat (map (record_of self) ?as)),
       displayed_messages = (\<lambda>a. KNum (generate_message_id (fst (snd a)))) ` set ?as\<rparr>,
      None)"
  proof (rule read_fresh_file)
    show "\<forall>a \<in> set ?as. loads (json_dumps (message_of self a)) = Inr (message_of self a)"
      using assms(1) by (simp add: sent_messages_def)
    show "distinct (map (\<lambda>a. generate_message_id (fst (snd a))) ?as)"
      using assms(2) by (simp add: assigned_ids_def)
    show "\<forall>a \<in> set ?as. generate_message_id (fst (snd a)) \<noteq> 0"
      using assms(3) by (auto simp: assigned_ids_def image_iff)
    show "10 \<notin> set (username self)" "13 \<notin> set (username self)" by fact+
    show "\<forall>a \<in> set ?as. 10 \<notin> set (snd (snd a)) \<and> 13 \<notin> set (snd (snd a))"
      using assms(6) by simp
    show "\<forall>a \<in> set ?as. accepted self a" by simp
  qed
  then show ?thesis
    by (simp add: header_line send_all_Some sent_messages_def assigned_ids_def file_size_def
        image_image)
qed

theorem read_completeness_witness:
  "sent_messages bob [(morning, morning, py ''a''), (morning, noon, py ''spam''), (noon, noon, py ''b'')] =
     [message_of bob (morning, morning, py ''a''), message_of bob (noon, noon, py ''b'')] \<and>
   json_loads 1000 (json_dumps (message_of bob (morning, morning, py ''a''))) =
     Inr (message_of bob (morning, morning, py ''a'')) \<and>
   json_loads 1000 (json_dumps (message_of bob (noon, noon, py ''b''))) =
     Inr (message_of bob (noon, noon, py ''b'')) \<and>
   assigned_ids bob [(morning, morning, py ''a''), (morning, noon, py ''spam''), (noon, noon, py ''b'')] =
     [1704189784100, 1704196800000] \<and>
   fst (read_new_messages (json_loads 1000) init_receiver
          (snd (send_all bob
                  [(morning, morning, py ''a''), (morning, noon, py ''spam''), (noon, noon, py ''b'')]
                  (ensure_chat_file_exists None)))) =
     [message_of bob (morning, morning, py ''a''), message_of bob (noon, noon, py ''b'')]"
proof -
  let ?atts = "[(morning, morning, py ''a''), (morning, noon, py ''spam''), (noon, noon, py ''b'')]"
  have sent: "sent_messages bob ?atts =
      [message_of bob (morning, morning, py ''a''), message_of bob (noon, noon, py ''b'')]"
    by (simp add: sent_messages_def accepted_a rejected_spam accepted_noon_b)
  have ids: "assigned_ids bob ?atts = [1704189784100, 1704196800000]"
    by (simp add: assigned_ids_def accepted_a rejected_spam accepted_noon_b id_morning id_noon)
  have h1: "\<forall>m \<in> set (sent_messages bob ?atts). json_loads 1000 (json_dumps m) = Inr m"
    unfolding sent by (simp add: roundtrip_a roundtrip_noon_b)
  have h2: "distinct (assigned_ids bob ?atts)" unfolding ids by simp
  have h3: "0 \<notin> set (assigned_ids bob ?atts)" unfolding ids by simp
  have h4: "10 \<notin> set (username bob)" and h5: "13 \<notin> set (username bob)"
    by (simp_all add: bob_def py_def)
  have h6: "\<forall>a \<in> set ?atts. accepted bob a \<longrightarrow>
      10 \<notin> set (snd (snd a)) \<and> 13 \<notin> set (snd (snd a))"
    by (simp add: py_def)
  from read_completeness [OF h1 h2 h3 h4 h5 h6]
  have "fst (read_new_messages (json_loads 1000) init_receiver
          (snd (send_all bob ?atts (ensure_chat_file_exists None)))) =
     sent_messages bob ?atts"
    by simp
  with sent ids roundtrip_a roundtrip_noon_b show ?thesis by simp
qed

section \<open>Sending the same identifier twice\<close>

lemma line_message_not_json:
  assumes "\<not> isspace c" "c \<noteq> 74"
  shows "line_message loads (c # s) = []"
  using not_json_prefix [OF assms, of s] by (simp add: line_message_def)

lemma line_message_separator: "line_message loads (replicate 50 45 @ [10]) = []"
proof -
  have "replicate 50 45 = (45::nat) # replicate 49 45" by (simp add: numeral_eq_Suc)
  then show ?thesis
    using line_message_not_json [of 45 loads "replicate 49 45 @ [10]"]
    by (simp add: isspace_def)
qed

lemma line_message_json:
  assumes "loads (json_dumps (message_of self a)) = Inr (message_of self a)"
  shows "line_message loads ((py ''JSON: '' @ json_dumps (message_of self a)) @ [10]) =
     [message_of self a]"
proof -
  have "startswith (py ''JSON: '' @ json_dumps (message_of self a)) (py ''JSON: '')"
    by (simp add: startswith_def py_def)
  moreover have "drop 6 (py ''JSON: '' @ json_dumps (message_of self a)) =
      json_dumps (message_of self a)"
    by (simp add: py_def)
  ultimately show ?thesis
    using assms strip_line_end [of "py ''JSON: '' @ json_dumps (message_of self a)"]
    by (simp add: line_message_def json_line_strip)
qed

lemma line_messages_record:
  assumes "loads (json_dumps (message_of self a)) = Inr (message_of self a)"
  shows "concat (map (line_message loads) (map (\<lambda>l. l @ [10]) (record_lines self a))) =
     [message_of self a]"
  using assms line_message_json [of loads self a]
  by (simp add: record_lines_def isspace_def line_message_not_json line_message_separator)

text \<open>
  Whenever the extraction loop of \<^verbatim>\<open>show_existing_messages\<close> reaches the end of the
  lines, it has collected the stored messages.
\<close>

lemma extract_line_stored:
  "extract_line loads l msgs = Inr msgs' \<Longrightarrow> msgs' = msgs @ line_message loads l"
  by (auto simp: extract_line_def line_message_def Let_def split: if_splits sum.splits)

lemma extract_lines_stored:
  "extract_lines loads ls msgs = Inr msgs' \<Longrightarrow>
   msgs' = msgs @ concat (map (line_message loads) ls)"
proof (induction ls arbitrary: msgs)
  case Nil
  then show ?case by simp
next
  case (Cons l ls)
  from Cons.prems obtain m1 where
    one: "extract_line loads l msgs = Inr m1" and rest: "extract_lines loads ls m1 = Inr msgs'"
    by (auto split: sum.splits)
  from extract_line_stored [OF one] Cons.IH [OF rest] show ?case by simp
qed

lemma show_existing_messages_extracts_stored:
  "extract_lines loads (readlines (universal_newlines content)) [] = Inr msgs \<Longrightarrow>
   msgs = stored_messages loads (Some content)"
  using extract_lines_stored [of loads "readlines (universal_newlines content)" "[]" msgs]
  by (simp add: stored_messages_def)

lemma stored_messages_append_records:
  assumes c: "c = [] \<or> last c = 10"
    and r1: "\<forall>l \<in> set (record_lines s1 a1). 10 \<notin> set l \<and> 13 \<notin> set l"
    and r2: "\<forall>l \<in> set (record_lines s2 a2). 10 \<notin> set l \<and> 13 \<notin> set l"
    and l1: "loads (json_dumps (message_of s1 a1)) = Inr (message_of s1 a1)"
    and l2: "loads (json_dumps (message_of s2 a2)) = Inr (message_of s2 a2)"
  shows "stored_messages loads (Some (c @ record_of s1 a1 @ record_of s2 a2)) =
     stored_messages loads (Some c) @ [message_of s1 a1, message_of s2 a2]"
proof -
  let ?ls = "record_lines s1 a1 @ record_lines s2 a2"
  let ?R = "record_of s1 a1 @ record_of s2 a2"
  have R: "?R = concat (map (\<lambda>l. l @ [10]) ?ls)"
    by (simp add: record_of_lines)
  have no10: "\<forall>l \<in> set ?ls. 10 \<notin> set l" using r1 r2 by auto
  have "13 \<notin> set ?R" unfolding R using r1 r2 by auto
  then have unR: "universal_newlines ?R = ?R" by (rule universal_newlines_id)
  from c have "c = [] \<or> last c \<noteq> 13" by auto
  then have un: "universal_newlines (c @ ?R) = universal_newlines c @ ?R"
    using universal_newlines_append [of c ?R] unR by simp
  have "universal_newlines c = [] \<or> last (universal_newlines c) = 10"
  proof (cases "c = []")
    case True
    then show ?thesis by simp
  next
    case False
    with c universal_newlines_last [of c] show ?thesis by simp
  qed
  then have rl: "readlines (universal_newlines c @ ?R) =
      readlines (universal_newlines c) @ readlines ?R"
    by (rule readlines_append)
  have "readlines ?R = map (\<lambda>l. l @ [10]) ?ls"
    using readlines_lines [OF no10, of "[]"] unfolding R by simp
  with un rl have "stored_messages loads (Some (c @ ?R)) =
      stored_messages loads (Some c) @
      concat (map (line_message loads) (map (\<lambda>l. l @ [10]) ?ls))"
    by (simp add: stored_messages_def)
  also have "concat (map (line_message loads) (map (\<lambda>l. l @ [10]) ?ls)) =
      [message_of s1 a1, message_of s2 a2]"
    using l1 l2 line_messages_record [of loads s1 a1] line_messages_record [of loads s2 a2]
    by simp
  finally show ?thesis .
qed

lemma accepted_hi: "accepted bob (morning, morning, py ''hi'')"
  by (simp add: sender_eval str_eval)

lemma roundtrip_hi:
  "json_loads 1000 (json_dumps (message_of bob (morning, morning, py ''hi''))) =
     Inr (message_of bob (morning, morning, py ''hi''))"
  by (simp add: dumps_eval sender_eval json_eval str_eval)

lemma record_lines_hi:
  "\<forall>l \<in> set (record_lines bob (morning, morning, py ''hi'')). 10 \<notin> set l \<and> 13 \<notin> set l"
  using record_lines_chars [of 10 bob "(morning, morning, py ''hi'')"]
    record_lines_chars [of 13 bob "(morning, morning, py ''hi'')"]
  by (simp add: bob_def py_def)

text \<open>
  C2, as the claim states it: of two sends with the same identifier the second is
  rejected and not appended, so the number of stored messages grows by 1. \<open>bob\<close> sends
  \<open>hi\<close> twice within the same millisecond into an empty file: the identifiers are equal,
  both sends return \<^verbatim>\<open>True\<close>, and the file holds two messages afterwards.
\<close>

theorem duplicate_send_is_appended:
  "assigned_ids bob [(morning, morning, py ''hi''), (morning, morning, py ''hi'')] =
     [1704189784100, 1704189784100] \<and>
   fst (send_all bob [(morning, morning, py ''hi''), (morning, morning, py ''hi'')] (Some [])) =
     [True, True] \<and>
   length (stored_messages (json_loads 1000) (Some [])) = 0 \<and>
   length (stored_messages (json_loads 1000)
             (snd (send_all bob [(morning, morning, py ''hi''), (morning, morning, py ''hi'')]
                     (Some [])))) = 2"
proof -
  let ?a = "(morning, morning, py ''hi'')"
  have "stored_messages (json_loads 1000) (Some ([] @ record_of bob ?a @ record_of bob ?a)) =
      stored_messages (json_loads 1000) (Some []) @ [message_of bob ?a, message_of bob ?a]"
    by (rule stored_messages_append_records) (simp_all add: record_lines_hi roundtrip_hi)
  moreover have "stored_messages (json_loads 1000) (Some []) = []"
    by (simp add: stored_messages_def)
  ultimately show ?thesis
    by (simp add: send_all_Some accepted_hi assigned_ids_def id_morning)
qed

text \<open>
  C2, amended: \<^verbatim>\<open>send_message\<close> has no duplicate check. Two successful sends (the
  text passes validation and the line to write can be encoded) both return \<^verbatim>\<open>True\<close>
  and each appends its record, whether or not their identifiers are equal; when the file ends with a line end (or is empty), the names and texts have
  no line break and \<^verbatim>\<open>json.loads\<close> gives back each message from its text, the stored
  messages grow by exactly these two. (Suppression of a repeated identifier happens in
  the receiver, see C5 and C6.)
\<close>

theorem send_message_never_deduplicates:
  assumes "accepted s1 a1" and "accepted s2 a2"
    and "c = [] \<or> last c = 10"
    and "\<forall>x \<in> {10, 13}. x \<notin> set (username s1) \<and> x \<notin> set (snd (snd a1)) \<and>
                        x \<notin> set (username s2) \<and> x \<notin> set (snd (snd a2))"
    and "loads (json_dumps (message_of s1 a1)) = Inr (message_of s1 a1)"
    and "loads (json_dumps (message_of s2 a2)) = Inr (message_of s2 a2)"
  shows "send_message s1 (fst a1) (fst (snd a1)) (snd (snd a1)) (Some c) =
           (True, Some (c @ record_of s1 a1)) \<and>
         send_message s2 (fst a2) (fst (snd a2)) (snd (snd a2)) (Some (c @ record_of s1 a1)) =
           (True, Some (c @ record_of s1 a1 @ record_of s2 a2)) \<and>
         stored_messages loads (Some (c @ record_of s1 a1 @ record_of s2 a2)) =
           stored_messages loads (Some c) @ [message_of s1 a1, message_of s2 a2]"
proof -
  have r1: "\<forall>l \<in> set (record_lines s1 a1). 10 \<notin> set l \<and> 13 \<notin> set l"
    using assms(4) record_lines_chars [of 10 s1 a1] record_lines_chars [of 13 s1 a1] by simp
  have r2: "\<forall>l \<in> set (record_lines s2 a2). 10 \<notin> set l \<and> 13 \<notin> set l"
    using assms(4) record_lines_chars [of 10 s2 a2] record_lines_chars [of 13 s2 a2] by simp
  have "stored_messages loads (Some (c @ record_of s1 a1 @ record_of s2 a2)) =
      stored_messages loads (Some c) @ [message_of s1 a1, message_of s2 a2]"
    using assms(3) r1 r2 assms(5,6) by (rule stored_messages_append_records)
  moreover have "send_message s1 (fst a1) (fst (snd a1)) (snd (snd a1)) (Some c) =
      (True, Some (c @ record_of s1 a1))"
    using assms(1) by (simp add: send_message_Some)
  moreover have "send_message s2 (fst a2) (fst (snd a2)) (snd (snd a2)) (Some (c @ record_of s1 a1)) =
      (True, Some (c @ record_of s1 a1 @ record_of s2 a2))"
    using assms(2) by (simp add: send_message_Some)
  ultimately show ?thesis by blast
qed

theorem send_message_never_deduplicates_witness:
  "accepted bob (morning, morning, py ''hi'') \<and>
   json_loads 1000 (json_dumps (message_of bob (morning, morning, py ''hi''))) =
     Inr (message_of bob (morning, morning, py ''hi'')) \<and>
   send_message bob morning morning (py ''hi'')
     (Some (record_of bob (morning, morning, py ''hi''))) =
     (True, Some (record_of bob (morning, morning, py ''hi'') @
                  record_of bob (morning, morning, py ''hi''))) \<and>
   stored_messages (json_loads 1000)
     (Some (record_of bob (morning, morning, py ''hi'') @
            record_of bob (morning, morning, py ''hi''))) =
     [message_of bob (morning, morning, py ''hi''), message_of bob (morning, morning, py ''hi'')]"
proof -
  let ?a = "(morning, morning, py ''hi'')"
  have h4: "\<forall>x \<in> {10, 13}. x \<notin> set (username bob) \<and> x \<notin> set (snd (snd ?a)) \<and>
                        x \<notin> set (username bob) \<and> x \<notin> set (snd (snd ?a))"
    by (simp add: bob_def py_def)
  show ?thesis
    using send_message_never_deduplicates [of bob ?a bob ?a "[]" "json_loads 1000"]
      accepted_hi h4 roundtrip_hi
    by (simp add: stored_messages_def)
qed

section \<open>A line nested too deeply\<close>











end
